theory Spec2Isabelle
  imports Complex_Main
begin

section \<open>Path playback on a map: the model of \<open>static/js/map.js\<close>\<close>

text \<open>
  The script replays a list of timestamped locations on an OpenLayers map: a repeating
  timer reveals one location per firing, adding a point feature, a timeline entry and
  (from the second location on) a dashed segment with a direction arrow.

  JavaScript numbers are modelled as reals (and once more with the sign of zero, for the
  segment between equal coordinates), arrays as lists, the closure of the interval
  callback as a record stored with its timer, and the browser's event loop as a step
  function over events: a click on the button, the resolution of a pending \<open>fetch\<close>,
  and the firing of an interval timer. Each handler runs to completion before the next
  event is taken, as in the single-threaded event loop.
\<close>

subsection \<open>Data\<close>

type_synonym coordinate = "real \<times> real"

text \<open>One element of the JSON array returned by \<open>/api/locations\<close>.\<close>

record location =
  latitude :: real
  longitude :: real
  timestamp :: string

text \<open>
  The styles built by the script. The icon's inline SVG source is a constant string and
  is left out; every other option is kept.
\<close>

datatype style =
    StrokeStyle string real "real list"
  | CircleStyle real string string real
  | IconStyle coordinate coordinate bool real real

text \<open>
  A feature of the vector source: its \<open>type\<close> property is the constructor
  (\<open>'point'\<close> or \<open>'path-segment'\<close>).
\<close>

datatype feature =
    PointFeature coordinate string "style list"
  | SegmentFeature "coordinate list" "style list"

datatype error = TypeError

subsection \<open>Segment geometry: \<open>createSegmentStyle\<close>\<close>

text \<open>\<open>Math.atan2(y, x)\<close> on real numbers: the angle of the vector \<open>(x, y)\<close> in \<open>(-\<pi>, \<pi>]\<close>,
  and \<open>0\<close> at the origin. A real number has no sign of zero; what \<open>Math.atan2\<close> makes of
  that sign is in \<open>atan2z\<close> below.\<close>

definition atan2 :: "real \<Rightarrow> real \<Rightarrow> real" where
  "atan2 y x =
     (if 0 < x then arctan (y / x)
      else if x < 0 then (if 0 \<le> y then arctan (y / x) + pi else arctan (y / x) - pi)
      else if 0 < y then pi / 2
      else if y < 0 then - (pi / 2)
      else 0)"

text \<open>\<open>xs[k]\<close>: \<open>undefined\<close> (here \<open>None\<close>) beyond the end of the array.\<close>

definition at_index :: "'a list \<Rightarrow> nat \<Rightarrow> 'a option" where
  "at_index xs k = (if k < length xs then Some (xs ! k) else None)"

text \<open>
  The argument is the coordinate array of the line string. Reading a component of a
  missing coordinate (\<open>start[0]\<close> with \<open>start\<close> undefined) throws a \<open>TypeError\<close>.
\<close>

definition createSegmentStyle :: "coordinate list \<Rightarrow> error + style list" where
  "createSegmentStyle coords =
     (let styles = [StrokeStyle ''#007bff'' 2 [20, 5]] in
      case at_index coords 0 of
        None \<Rightarrow> Inl TypeError
      | Some start \<Rightarrow>
          (case at_index coords 1 of
             None \<Rightarrow> Inl TypeError
           | Some end' \<Rightarrow>
               (let dx = fst end' - fst start;
                    dy = snd end' - snd start;
                    rotation = atan2 dy dx;
                    midpoint = ((fst start + fst end') / 2, (snd start + snd end') / 2)
                in Inr (styles @
                     [IconStyle midpoint (0.5, 0.5) True (- rotation + pi / 2) 0.6]))))"

text \<open>The rotation and the position of the arrow icon among a segment's styles.\<close>

fun iconRotations :: "style list \<Rightarrow> real list" where
  "iconRotations [] = []"
| "iconRotations (IconStyle g a v r k # ss) = r # iconRotations ss"
| "iconRotations (s # ss) = iconRotations ss"

fun iconPositions :: "style list \<Rightarrow> coordinate list" where
  "iconPositions [] = []"
| "iconPositions (IconStyle g a v r k # ss) = g # iconPositions ss"
| "iconPositions (s # ss) = iconPositions ss"

subsection \<open>The sign of zero\<close>

text \<open>
  JavaScript has two zeros, \<open>+0\<close> and \<open>-0\<close>, equal as numbers. A number with the sign of
  its zero: \<open>MinusZero\<close> is \<open>-0\<close> and \<open>Number 0\<close> is \<open>+0\<close>. The operations below are those of
  \<open>createSegmentStyle\<close>, with the sign of a zero result as IEEE 754 gives it: a difference
  is \<open>-0\<close> only for \<open>-0 - +0\<close>, a sum only for \<open>-0 + -0\<close>, negation changes the sign, and
  halving keeps it. Rounding is not modelled.
\<close>

datatype number = MinusZero | Number real

fun value_of :: "number \<Rightarrow> real" where
  "value_of MinusZero = 0"
| "value_of (Number r) = r"

definition num_sub :: "number \<Rightarrow> number \<Rightarrow> number" where
  "num_sub a b =
     (if a = MinusZero \<and> b = Number 0 then MinusZero else Number (value_of a - value_of b))"

definition num_add :: "number \<Rightarrow> number \<Rightarrow> number" where
  "num_add a b =
     (if a = MinusZero \<and> b = MinusZero then MinusZero else Number (value_of a + value_of b))"

definition num_neg :: "number \<Rightarrow> number" where
  "num_neg a =
     (case a of
        MinusZero \<Rightarrow> Number 0
      | Number r \<Rightarrow> if r = 0 then MinusZero else Number (- r))"

definition num_half :: "number \<Rightarrow> number" where
  "num_half a = (case a of MinusZero \<Rightarrow> MinusZero | Number r \<Rightarrow> Number (r / 2))"

text \<open>
  \<open>Math.atan2(y, x)\<close> with the zero signs. For \<open>y = +0\<close> the result is \<open>+0\<close> when \<open>x\<close> is
  positive or \<open>+0\<close>, and \<open>\<pi>\<close> when \<open>x\<close> is negative or \<open>-0\<close>; for \<open>y = -0\<close> it is \<open>-0\<close> and \<open>-\<pi>\<close> in
  the same two cases; for any other \<open>y\<close> it is the angle of the real numbers.
\<close>

definition atan2z :: "number \<Rightarrow> number \<Rightarrow> number" where
  "atan2z y x =
     (case y of
        MinusZero \<Rightarrow> if x = MinusZero \<or> value_of x < 0 then Number (- pi) else MinusZero
      | Number r \<Rightarrow>
          if r = 0 then (if x = MinusZero \<or> value_of x < 0 then Number pi else Number 0)
          else Number (atan2 r (value_of x)))"

text \<open>
  The arithmetic of \<open>createSegmentStyle\<close> on such numbers: the midpoint given to the arrow
  icon, the angle \<open>rotation\<close>, and the rotation \<open>-rotation + Math.PI / 2\<close> given to the icon.
\<close>

type_synonym point = "number \<times> number"

record arrow =
  position :: point
  angle :: number
  iconRotation :: number

definition segmentArrow :: "point list \<Rightarrow> error + arrow" where
  "segmentArrow coords =
     (case at_index coords 0 of
        None \<Rightarrow> Inl TypeError
      | Some start \<Rightarrow>
          (case at_index coords 1 of
             None \<Rightarrow> Inl TypeError
           | Some end' \<Rightarrow>
               (let dx = num_sub (fst end') (fst start);
                    dy = num_sub (snd end') (snd start);
                    rotation = atan2z dy dx;
                    midpoint = (num_half (num_add (fst start) (fst end')),
                                num_half (num_add (snd start) (snd end')))
                in Inr \<lparr>position = midpoint, angle = rotation,
                         iconRotation = num_add (num_neg rotation) (Number (pi / 2))\<rparr>)))"

subsection \<open>The page: map, timeline, timers\<close>

text \<open>
  An extent is a bounding box \<open>[minx, miny, maxx, maxy]\<close>; \<open>EmptyExtent\<close> is the box of
  no coordinate at all. \<open>getExtent\<close> is the vector source's: the box around the geometry
  of all of its features.
\<close>

datatype extent = EmptyExtent | Extent real real real real

fun extendCoordinate :: "extent \<Rightarrow> coordinate \<Rightarrow> extent" where
  "extendCoordinate EmptyExtent c = Extent (fst c) (snd c) (fst c) (snd c)"
| "extendCoordinate (Extent minx miny maxx maxy) c =
     Extent (min minx (fst c)) (min miny (snd c)) (max maxx (fst c)) (max maxy (snd c))"

definition boundingExtent :: "coordinate list \<Rightarrow> extent" where
  "boundingExtent cs = fold (\<lambda>c e. extendCoordinate e c) cs EmptyExtent"

fun featureCoordinates :: "feature \<Rightarrow> coordinate list" where
  "featureCoordinates (PointFeature c ts st) = [c]"
| "featureCoordinates (SegmentFeature cs st) = cs"

definition getExtent :: "feature list \<Rightarrow> extent" where
  "getExtent fs = boundingExtent (concat (map featureCoordinates fs))"

text \<open>
  What the script asks of the page, in the order it asks:
  \<open>vectorSource.clear()\<close>, \<open>timelineUl.innerHTML = ''\<close>, \<open>vectorSource.addFeature\<close>,
  \<open>timelineUl.appendChild\<close>, \<open>view.animate\<close> (centre and duration; the zoom passed is the
  view's own, so it does not change), \<open>view.fit\<close> (extent, padding on each side,
  duration), \<open>alert\<close>, \<open>console.error\<close>, and an exception that leaves a callback.
\<close>

datatype command =
    ClearAll
  | Clear
  | AddFeature feature
  | AppendEntry string
  | CenterOn coordinate nat
  | FitToBounds extent nat nat
  | Alert string
  | ConsoleError
  | Uncaught error

text \<open>
  Every command is recorded with the time it is issued at and with the code that issued
  it: the click handler and its continuation, or the callback of the timer with the
  given handle.
\<close>

datatype origin = Handler | Timer nat

datatype entry = Entry nat origin command

fun time_of :: "entry \<Rightarrow> nat" where
  "time_of (Entry tm who c) = tm"

fun origin_of :: "entry \<Rightarrow> origin" where
  "origin_of (Entry tm who c) = who"

fun command_of :: "entry \<Rightarrow> command" where
  "command_of (Entry tm who c) = c"

text \<open>
  An interval timer: its period, the time of its next firing, and the variables its
  callback closes over (\<open>locations\<close>, \<open>i\<close>, here \<open>idx\<close>, and \<open>allCoordinates\<close>).
\<close>

record timer =
  delay :: nat
  due :: nat
  locations :: "location list"
  idx :: nat
  allCoordinates :: "coordinate list"

text \<open>
  The state: the script's variable \<open>animationInterval\<close>, the features of the vector
  source, the items of the timeline, and the environment's part: the active timers by
  handle, the next handle \<open>setInterval\<close> returns, the number of \<open>fetch\<close> calls not yet
  resolved, the time, and the record of commands.
\<close>

record state =
  animationInterval :: "nat option"
  features :: "feature list"
  timeline :: "string list"
  timers :: "nat \<Rightarrow> timer option"
  next_id :: nat
  pending :: nat
  clock :: nat
  trace :: "entry list"

text \<open>The page when the script has loaded. Timer handles are positive.\<close>

definition initial :: state where
  "initial = \<lparr>animationInterval = None, features = [], timeline = [], timers = (\<lambda>h. None),
     next_id = 1, pending = 0, clock = 0, trace = []\<rparr>"

definition emit :: "origin \<Rightarrow> command \<Rightarrow> state \<Rightarrow> state" where
  "emit who c s = s\<lparr>trace := trace s @ [Entry (clock s) who c]\<rparr>"

definition clearInterval :: "nat \<Rightarrow> state \<Rightarrow> state" where
  "clearInterval h s = s\<lparr>timers := (timers s)(h := None)\<rparr>"

definition addFeature :: "origin \<Rightarrow> feature \<Rightarrow> state \<Rightarrow> state" where
  "addFeature who f s = emit who (AddFeature f) (s\<lparr>features := features s @ [f]\<rparr>)"

definition appendChild :: "origin \<Rightarrow> string \<Rightarrow> state \<Rightarrow> state" where
  "appendChild who txt s = emit who (AppendEntry txt) (s\<lparr>timeline := timeline s @ [txt]\<rparr>)"

subsection \<open>\<open>animatePath\<close> and its interval callback\<close>

definition pointStyle :: "style list" where
  "pointStyle = [CircleStyle 7 ''#E53935'' ''#fff'' 2]"

text \<open>
  Step 3 of the callback: the segment from the previous coordinate. An undefined
  \<open>allCoordinates[i - 1]\<close> makes the construction of the segment throw.
\<close>

definition segmentStep :: "nat \<Rightarrow> timer \<Rightarrow> coordinate \<Rightarrow> state \<Rightarrow> error + state" where
  "segmentStep h t transformedCoord s =
     (case at_index (allCoordinates t) (idx t - 1) of
        None \<Rightarrow> Inl TypeError
      | Some prevCoord \<Rightarrow>
          (let segmentGeom = [prevCoord, transformedCoord] in
           case createSegmentStyle segmentGeom of
             Inl e \<Rightarrow> Inl e
           | Inr styles \<Rightarrow> Inr (addFeature (Timer h) (SegmentFeature segmentGeom styles) s)))"

text \<open>
  The callback of the timer with handle \<open>h\<close>, on its closure \<open>t\<close>. The projection
  \<open>ol.proj.fromLonLat\<close> is a parameter. Note that completion clears the timer whose handle
  the variable \<open>animationInterval\<close> holds at that moment. An exception ends the callback
  where it is thrown: \<open>i\<close> is not incremented. The scrolling of the timeline to its last
  item is not modelled.
\<close>

definition intervalCallback ::
  "(coordinate \<Rightarrow> coordinate) \<Rightarrow> nat \<Rightarrow> timer \<Rightarrow> state \<Rightarrow> timer \<times> state" where
  "intervalCallback fromLonLat h t s =
     (if length (locations t) \<le> idx t then
        (let s1 = (case animationInterval s of None \<Rightarrow> s | Some a \<Rightarrow> clearInterval a s);
             s2 = (if 0 < length (features s1)
                   then emit (Timer h) (FitToBounds (getExtent (features s1)) 50 1000) s1
                   else s1)
         in (t, s2))
      else
        (case at_index (locations t) (idx t) of
           None \<Rightarrow> (t, emit (Timer h) (Uncaught TypeError) s)
         | Some loc \<Rightarrow>
             (let lonLat = (longitude loc, latitude loc);
                  transformedCoord = fromLonLat lonLat;
                  t1 = t\<lparr>allCoordinates := allCoordinates t @ [transformedCoord]\<rparr>;
                  pointFeature = PointFeature transformedCoord (timestamp loc) pointStyle;
                  s1 = addFeature (Timer h) pointFeature s;
                  s2 = appendChild (Timer h) (''Location at: '' @ timestamp loc) s1
              in case (if 0 < idx t then segmentStep h t1 transformedCoord s2 else Inr s2) of
                   Inl e \<Rightarrow> (t1, emit (Timer h) (Uncaught e) s2)
                 | Inr s3 \<Rightarrow>
                     (t1\<lparr>idx := idx t + 1\<rparr>,
                      emit (Timer h) (CenterOn transformedCoord 1000) s3))))"

text \<open>
  \<open>animatePath\<close>: \<open>setInterval(callback, 2000)\<close> registers a timer under a fresh handle,
  first due one period from now, and the handle is stored in \<open>animationInterval\<close>.
\<close>

definition animatePath :: "location list \<Rightarrow> state \<Rightarrow> state" where
  "animatePath locs s =
     (let h = next_id s in
      s\<lparr>animationInterval := Some h,
        timers := (timers s)(h \<mapsto>
          \<lparr>delay = 2000, due = clock s + 2000, locations = locs, idx = 0,
           allCoordinates = []\<rparr>),
        next_id := h + 1\<rparr>)"

text \<open>
  A firing of timer \<open>h\<close>. A cleared timer never fires. The time is the timer's due time
  (or later, when the page was busy), the callback runs to its end, and a timer that is
  still active is due again one period later, with the closure as the callback left it.
\<close>

definition fire :: "(coordinate \<Rightarrow> coordinate) \<Rightarrow> nat \<Rightarrow> state \<Rightarrow> state" where
  "fire fromLonLat h s =
     (case timers s h of
        None \<Rightarrow> s
      | Some t \<Rightarrow>
          (let s0 = s\<lparr>clock := max (clock s) (due t)\<rparr>;
               r = intervalCallback fromLonLat h t s0;
               t' = fst r;
               s1 = snd r
           in if timers s1 h = None then s1
              else s1\<lparr>timers := (timers s1)(h \<mapsto> t'\<lparr>due := clock s1 + delay t'\<rparr>)\<rparr>))"

subsection \<open>\<open>fetchAndDisplayPath\<close>\<close>

text \<open>The values of the three inputs when the button is clicked.\<close>

record selection =
  groupId :: string
  startDate :: string
  endDate :: string

text \<open>
  How a \<open>fetch\<close> ends: the promise is rejected (or the body is not JSON), the response has
  a status that is not ok, or the body is an array of locations.
\<close>

datatype outcome = Rejected | HttpError nat | Body "location list"

text \<open>
  The function up to its \<open>await\<close>. The handle \<open>0\<close> is falsy in \<open>if (animationInterval)\<close>.
  With a complete selection the request is sent and the function is suspended.
\<close>

definition fetchAndDisplayPath :: "selection \<Rightarrow> state \<Rightarrow> state" where
  "fetchAndDisplayPath sel s =
     (let s1 = (case animationInterval s of
                  None \<Rightarrow> s
                | Some h \<Rightarrow> if h \<noteq> 0 then clearInterval h s else s);
          s2 = emit Handler ClearAll (s1\<lparr>features := []\<rparr>);
          s3 = emit Handler Clear (s2\<lparr>timeline := []\<rparr>)
      in if groupId sel = [] \<or> startDate sel = [] \<or> endDate sel = []
         then emit Handler (Alert ''Please select a group and a date range.'') s3
         else s3\<lparr>pending := pending s3 + 1\<rparr>)"

text \<open>The rest of the function, run when one of the pending requests ends.\<close>

definition fetchResolved :: "outcome \<Rightarrow> state \<Rightarrow> state" where
  "fetchResolved r s =
     (if pending s = 0 then s
      else
        (let s1 = s\<lparr>pending := pending s - 1\<rparr> in
         case r of
           Body locs \<Rightarrow>
             if length locs = 0
             then emit Handler (Alert ''No data available for the selected criteria.'') s1
             else animatePath locs s1
         | _ \<Rightarrow> emit Handler (Alert ''Failed to fetch location data.'')
                  (emit Handler ConsoleError s1)))"

subsection \<open>The event loop\<close>

datatype event = Click selection | Resolve outcome | Tick nat

fun step :: "(coordinate \<Rightarrow> coordinate) \<Rightarrow> event \<Rightarrow> state \<Rightarrow> state" where
  "step fromLonLat (Click sel) s = fetchAndDisplayPath sel s"
| "step fromLonLat (Resolve r) s = fetchResolved r s"
| "step fromLonLat (Tick h) s = fire fromLonLat h s"

definition run :: "(coordinate \<Rightarrow> coordinate) \<Rightarrow> event list \<Rightarrow> state \<Rightarrow> state" where
  "run fromLonLat es s = fold (step fromLonLat) es s"

subsection \<open>What a playback is expected to issue\<close>

text \<open>
  The commands of one revealing firing, written out from the description of the
  playback: the point of location \<open>k\<close>, its timeline entry, from the second location on
  the segment from location \<open>k - 1\<close> to location \<open>k\<close>, and the centring of the view.
\<close>

definition project :: "(coordinate \<Rightarrow> coordinate) \<Rightarrow> location \<Rightarrow> coordinate" where
  "project fromLonLat loc = fromLonLat (longitude loc, latitude loc)"

definition pointOf :: "(coordinate \<Rightarrow> coordinate) \<Rightarrow> location \<Rightarrow> feature" where
  "pointOf fromLonLat loc = PointFeature (project fromLonLat loc) (timestamp loc) pointStyle"

definition segmentOf :: "coordinate \<Rightarrow> coordinate \<Rightarrow> feature" where
  "segmentOf a b =
     SegmentFeature [a, b]
       [StrokeStyle ''#007bff'' 2 [20, 5],
        IconStyle ((fst a + fst b) / 2, (snd a + snd b) / 2) (0.5, 0.5) True
          (- atan2 (snd b - snd a) (fst b - fst a) + pi / 2) 0.6]"

definition revealFeatures ::
  "(coordinate \<Rightarrow> coordinate) \<Rightarrow> location list \<Rightarrow> nat \<Rightarrow> feature list" where
  "revealFeatures fromLonLat locs k =
     pointOf fromLonLat (locs ! k) #
     (if 0 < k
      then [segmentOf (project fromLonLat (locs ! (k - 1))) (project fromLonLat (locs ! k))]
      else [])"

definition revealCommands ::
  "(coordinate \<Rightarrow> coordinate) \<Rightarrow> location list \<Rightarrow> nat \<Rightarrow> command list" where
  "revealCommands fromLonLat locs k =
     [AddFeature (pointOf fromLonLat (locs ! k)),
      AppendEntry (''Location at: '' @ timestamp (locs ! k))] @
     (if 0 < k
      then [AddFeature
              (segmentOf (project fromLonLat (locs ! (k - 1))) (project fromLonLat (locs ! k)))]
      else []) @
     [CenterOn (project fromLonLat (locs ! k)) 1000]"

text \<open>
  The state a playback of \<open>locs\<close> started in \<open>s\<close> is expected to be in after \<open>k\<close> firings of
  its timer, none of them later than due, and the state after the firing that finds the
  list exhausted.
\<close>

definition playing ::
  "(coordinate \<Rightarrow> coordinate) \<Rightarrow> location list \<Rightarrow> nat \<Rightarrow> state \<Rightarrow> state" where
  "playing P locs k s =
     s\<lparr>animationInterval := Some (next_id s),
       next_id := next_id s + 1,
       clock := (if k = 0 then clock s else clock s + 2000 * k),
       features := features s @ concat (map (revealFeatures P locs) [0..<k]),
       timeline := timeline s @ map (\<lambda>l. ''Location at: '' @ timestamp l) (take k locs),
       trace := trace s @ concat (map (\<lambda>j. map (Entry (clock s + 2000 * (j + 1)) (Timer (next_id s)))
                  (revealCommands P locs j)) [0..<k]),
       timers := (timers s)(next_id s \<mapsto>
          \<lparr>delay = 2000, due = clock s + 2000 * (k + 1), locations = locs, idx = k,
           allCoordinates = map (project P) (take k locs)\<rparr>)\<rparr>"

definition completed ::
  "(coordinate \<Rightarrow> coordinate) \<Rightarrow> location list \<Rightarrow> state \<Rightarrow> state" where
  "completed P locs s =
     (let p = playing P locs (length locs) s;
          now = clock s + 2000 * (length locs + 1);
          q = p\<lparr>clock := now, timers := (timers s)(next_id s := None)\<rparr>
      in if features p = [] then q
         else q\<lparr>trace := trace p @
                [Entry now (Timer (next_id s)) (FitToBounds (getExtent (features p)) 50 1000)]\<rparr>)"

text \<open>The entries of a trace that were added after a given earlier state.\<close>

definition since :: "state \<Rightarrow> state \<Rightarrow> entry list" where
  "since s s' = drop (length (trace s)) (trace s')"

fun isPoint :: "command \<Rightarrow> bool" where
  "isPoint (AddFeature (PointFeature c ts st)) = True"
| "isPoint c = False"

fun isSegment :: "command \<Rightarrow> bool" where
  "isSegment (AddFeature (SegmentFeature cs st)) = True"
| "isSegment c = False"

fun isRender :: "command \<Rightarrow> bool" where
  "isRender (AddFeature f) = True"
| "isRender c = False"


fun isFit :: "command \<Rightarrow> bool" where
  "isFit (FitToBounds e p d) = True"
| "isFit c = False"

text \<open>
  The two things a firing can do in a reachable state, written as updates of the state:
  reveal the next location of the closure \<open>t\<close>, or find the list exhausted.
\<close>

definition revealNext ::
  "(coordinate \<Rightarrow> coordinate) \<Rightarrow> nat \<Rightarrow> timer \<Rightarrow> state \<Rightarrow> state" where
  "revealNext fromLonLat h t s =
     (let now = max (clock s) (due t);
          loc = locations t ! idx t;
          coord = project fromLonLat loc;
          segment = (if 0 < idx t
                     then [segmentOf (allCoordinates t ! (idx t - 1)) coord] else [])
      in s\<lparr>clock := now,
           features := features s @ pointOf fromLonLat loc # segment,
           timeline := timeline s @ [''Location at: '' @ timestamp loc],
           trace := trace s @ map (Entry now (Timer h))
              ([AddFeature (pointOf fromLonLat loc),
                AppendEntry (''Location at: '' @ timestamp loc)] @
               map AddFeature segment @ [CenterOn coord 1000]),
           timers := (timers s)(h \<mapsto>
              t\<lparr>allCoordinates := allCoordinates t @ [coord], idx := idx t + 1,
                due := now + delay t\<rparr>)\<rparr>)"

definition finish :: "nat \<Rightarrow> timer \<Rightarrow> state \<Rightarrow> state" where
  "finish h t s =
     (let now = max (clock s) (due t);
          tm = (case animationInterval s of
                  None \<Rightarrow> timers s
                | Some a \<Rightarrow> (timers s)(a := None))
      in s\<lparr>clock := now,
           timers := (if tm h = None then tm else tm(h \<mapsto> t\<lparr>due := now + delay t\<rparr>)),
           trace := trace s @
             (if features s = [] then []
              else [Entry now (Timer h) (FitToBounds (getExtent (features s)) 50 1000)])\<rparr>)"

text \<open>Where the commands of an event come from.\<close>

fun event_origin :: "event \<Rightarrow> origin" where
  "event_origin (Click sel) = Handler"
| "event_origin (Resolve r) = Handler"
| "event_origin (Tick h) = Timer h"

fun isUncaught :: "command \<Rightarrow> bool" where
  "isUncaught (Uncaught e) = True"
| "isUncaught c = False"

text \<open>
  What holds of every state the page can reach: handles in use are positive and below
  the next fresh one, every active callback has revealed \<open>idx\<close> of its locations and
  collected as many coordinates, and no callback has thrown.
\<close>

definition consistent :: "state \<Rightarrow> bool" where
  "consistent s \<longleftrightarrow>
     0 < next_id s
   \<and> (\<forall>h. animationInterval s = Some h \<longrightarrow> 0 < h \<and> h < next_id s)
   \<and> (\<forall>h t. timers s h = Some t \<longrightarrow>
         0 < h \<and> h < next_id s \<and> idx t \<le> length (locations t)
       \<and> length (allCoordinates t) = idx t)
   \<and> filter (isUncaught \<circ> command_of) (trace s) = []"

text \<open>
  A sequence of events in which the button is never clicked while a request is pending,
  and the states in which at most one request or one playback is under way: an active
  timer is the one \<open>animationInterval\<close> holds.
\<close>

fun patient :: "(coordinate \<Rightarrow> coordinate) \<Rightarrow> event list \<Rightarrow> state \<Rightarrow> bool" where
  "patient P [] s = True"
| "patient P (Click sel # es) s = (pending s = 0 \<and> patient P es (step P (Click sel) s))"
| "patient P (e # es) s = patient P es (step P e s)"

definition alone :: "state \<Rightarrow> bool" where
  "alone s \<longleftrightarrow>
     pending s \<le> 1
   \<and> (\<forall>h. timers s h \<noteq> None \<longrightarrow> animationInterval s = Some h \<and> pending s = 0)"

subsection \<open>Example inputs\<close>

abbreviation exampleSelection :: selection where
  "exampleSelection \<equiv> \<lparr>groupId = ''g'', startDate = ''d1'', endDate = ''d2''\<rparr>"

abbreviation fixA :: location where
  "fixA \<equiv> \<lparr>latitude = 1, longitude = 2, timestamp = ''t1''\<rparr>"

abbreviation fixB :: location where
  "fixB \<equiv> \<lparr>latitude = 3, longitude = 5, timestamp = ''t2''\<rparr>"

abbreviation fixC :: location where
  "fixC \<equiv> \<lparr>latitude = 8, longitude = 7, timestamp = ''t3''\<rparr>"

section \<open>Properties of the segment geometry\<close>

lemma at_index_simps:
  "at_index (x # xs) 0 = Some x"
  "at_index (x # xs) (Suc k) = at_index xs k"
  "at_index [] k = None"
  by (simp_all add: at_index_def)

lemma createSegmentStyle_pair:
  "createSegmentStyle [prevCoord, currCoord] =
     Inr [StrokeStyle ''#007bff'' 2 [20, 5],
          IconStyle ((fst prevCoord + fst currCoord) / 2, (snd prevCoord + snd currCoord) / 2)
            (0.5, 0.5) True
            (- atan2 (snd currCoord - snd prevCoord) (fst currCoord - fst prevCoord) + pi / 2) 0.6]"
  by (simp add: createSegmentStyle_def at_index_simps Let_def)

lemma atan2_values:
  "atan2 0 1 = 0" "atan2 1 0 = pi / 2" "atan2 0 0 = 0"
  by (simp_all add: atan2_def)

text \<open>
  \<open>atan2\<close> is the angle of polar coordinates: it lies in \<open>(-\<pi>, \<pi>]\<close> and, with the length of
  the vector, gives the vector back.
\<close>

lemma atan2_range: "- pi < atan2 y x \<and> atan2 y x \<le> pi"
proof -
  have b: "- (pi / 2) < arctan (y / x)" "arctan (y / x) < pi / 2"
    by (rule arctan_lbound, rule arctan_ubound)
  have n: "arctan (y / x) \<le> 0" if "x < 0" "0 \<le> y"
    using that by (simp add: arctan_le_zero_iff divide_nonneg_neg)
  have p: "0 < arctan (y / x)" if "x < 0" "y < 0"
    using that by (simp add: zero_less_arctan_iff divide_neg_neg)
  show ?thesis
    using b n p pi_gt_zero by (auto simp add: atan2_def)
qed

lemma hyp_arctan:
  assumes "x \<noteq> 0"
  shows "sqrt (x\<^sup>2 + y\<^sup>2) * cos (arctan (y / x)) = \<bar>x\<bar>"
    and "sqrt (x\<^sup>2 + y\<^sup>2) * sin (arctan (y / x)) = \<bar>x\<bar> * (y / x)"
proof -
  have "1 + (y / x)\<^sup>2 = (x\<^sup>2 + y\<^sup>2) / x\<^sup>2"
    using assms by (simp add: power_divide field_simps)
  then have r: "sqrt (1 + (y / x)\<^sup>2) = sqrt (x\<^sup>2 + y\<^sup>2) / \<bar>x\<bar>"
    by (simp add: real_sqrt_divide)
  have pos: "0 < sqrt (x\<^sup>2 + y\<^sup>2)"
    using assms by (simp add: sum_power2_gt_zero_iff)
  show "sqrt (x\<^sup>2 + y\<^sup>2) * cos (arctan (y / x)) = \<bar>x\<bar>"
    using pos assms by (simp add: cos_arctan r)
  show "sqrt (x\<^sup>2 + y\<^sup>2) * sin (arctan (y / x)) = \<bar>x\<bar> * (y / x)"
    using pos assms by (simp add: sin_arctan r)
qed

lemma atan2_polar:
  "x = sqrt (x\<^sup>2 + y\<^sup>2) * cos (atan2 y x) \<and> y = sqrt (x\<^sup>2 + y\<^sup>2) * sin (atan2 y x)"
proof (cases "x = 0")
  case True
  then show ?thesis by (simp add: atan2_def)
next
  case False
  note h = hyp_arctan [OF False, of y]
  show ?thesis
  proof (cases "0 < x")
    case True
    with h show ?thesis by (simp add: atan2_def)
  next
    case neg: False
    with False have "x < 0" by simp
    with h show ?thesis
      by (simp add: atan2_def cos_add sin_add cos_diff sin_diff)
  qed
qed

text \<open>
  C4. For every segment from \<open>prevCoord\<close> to \<open>currCoord\<close> the rotation given to the arrow
  icon is \<open>-atan2(curr.y - prev.y, curr.x - prev.x) + \<pi>/2\<close>; travelling along +x from the origin
  gives \<open>\<pi>/2\<close>, travelling along +y gives \<open>0\<close>.
\<close>

theorem segment_rotation:
  "map_sum id iconRotations (createSegmentStyle [prevCoord, currCoord]) =
     Inr [- atan2 (snd currCoord - snd prevCoord) (fst currCoord - fst prevCoord) + pi / 2]
   \<and> map_sum id iconRotations (createSegmentStyle [(0, 0), (1, 0)]) = Inr [pi / 2]
   \<and> map_sum id iconRotations (createSegmentStyle [(0, 0), (0, 1)]) = Inr [0]"
  by (simp add: createSegmentStyle_pair atan2_values)

text \<open>
  C9. The arrow is placed at the component-wise mean of the two coordinates; between
  \<open>(2, 2)\<close> and \<open>(4, 6)\<close> that is \<open>(3, 4)\<close>.
\<close>

theorem segment_midpoint:
  "map_sum id iconPositions (createSegmentStyle [prevCoord, currCoord]) =
     Inr [((fst prevCoord + fst currCoord) / 2, (snd prevCoord + snd currCoord) / 2)]
   \<and> map_sum id iconPositions (createSegmentStyle [(2, 2), (4, 6)]) = Inr [(3, 4)]"
  by (simp add: createSegmentStyle_pair)

text \<open>
  C5, as stated: a segment between equal coordinates is drawn with rotation \<open>0\<close>. The
  angle is \<open>0\<close>, but the rotation given to the icon is \<open>- 0 + \<pi>/2\<close>.
\<close>

theorem degenerate_rotation_counterexample:
  "map_sum id iconRotations (createSegmentStyle [(0, 0), (0, 0)]) \<noteq> Inr [0]"
  by (simp add: createSegmentStyle_pair atan2_values)

text \<open>
  The same arithmetic with the sign of zero kept.
\<close>

lemma num_half_double: "num_half (num_add a a) = a"
  by (cases a) (simp_all add: num_half_def num_add_def)

lemma num_sub_self: "num_sub a a = Number 0"
  by (cases a) (simp_all add: num_sub_def)

lemma num_sub_MinusZero:
  "num_sub a b = MinusZero \<longleftrightarrow> a = MinusZero \<and> b = Number 0"
  by (simp add: num_sub_def)

lemma value_num_sub: "value_of (num_sub a b) = value_of a - value_of b"
  by (simp add: num_sub_def)

lemma value_num_add: "value_of (num_add a b) = value_of a + value_of b"
  by (simp add: num_add_def)

lemma value_num_neg: "value_of (num_neg a) = - value_of a"
  by (cases a) (simp_all add: num_neg_def)

lemma value_num_half: "value_of (num_half a) = value_of a / 2"
  by (cases a) (simp_all add: num_half_def)

lemma value_atan2z:
  assumes "x \<noteq> MinusZero" "y \<noteq> MinusZero"
  shows "value_of (atan2z y x) = atan2 (value_of y) (value_of x)"
  using assms by (cases y; cases x) (auto simp add: atan2z_def atan2_def)

lemma segmentArrow_pair:
  "segmentArrow [p, c] =
     Inr \<lparr>position = (num_half (num_add (fst p) (fst c)), num_half (num_add (snd p) (snd c))),
          angle = atan2z (num_sub (snd c) (snd p)) (num_sub (fst c) (fst p)),
          iconRotation =
            num_add (num_neg (atan2z (num_sub (snd c) (snd p)) (num_sub (fst c) (fst p))))
              (Number (pi / 2))\<rparr>"
  by (simp add: segmentArrow_def at_index_simps Let_def)

text \<open>Where no difference is the negative zero, the real-number model gives the same arrow.\<close>

lemma segmentArrow_real:
  assumes "\<not> (fst c = MinusZero \<and> fst p = Number 0)"
    and "\<not> (snd c = MinusZero \<and> snd p = Number 0)"
  shows "map_sum id (\<lambda>a. ((value_of (fst (position a)), value_of (snd (position a))),
                         value_of (iconRotation a))) (segmentArrow [p, c]) =
         Inr (((value_of (fst p) + value_of (fst c)) / 2,
               (value_of (snd p) + value_of (snd c)) / 2),
              - atan2 (value_of (snd c) - value_of (snd p)) (value_of (fst c) - value_of (fst p))
                + pi / 2)"
  using assms
  by (simp add: segmentArrow_pair value_num_half value_num_add value_num_neg value_atan2z
      num_sub_MinusZero value_num_sub)

text \<open>
  C5, amended. For equal coordinates the calculation throws nothing and the arrow sits on
  the point, the two ends of the zero-length segment. For identical coordinates the
  angle is \<open>+0\<close> and the rotation given to the icon is \<open>\<pi>/2\<close>. For coordinates that are equal
  as numbers the rotation is \<open>\<pi>/2\<close> as well, unless \<open>dx\<close> is \<open>-0\<close> (the current \<open>x\<close> is \<open>-0\<close>, the
  previous \<open>+0\<close>): then the angle is \<open>\<pi>\<close> or \<open>-\<pi>\<close> and the rotation \<open>-\<pi>/2\<close> or \<open>3\<pi>/2\<close>.
\<close>

theorem degenerate_segment:
  "segmentArrow [p, p] =
     Inr \<lparr>position = p, angle = Number 0, iconRotation = Number (pi / 2)\<rparr>
   \<and> (value_of (fst prevCoord) = value_of (fst currCoord)
        \<and> value_of (snd prevCoord) = value_of (snd currCoord) \<longrightarrow>
      (\<exists>a. segmentArrow [prevCoord, currCoord] = Inr a
         \<and> value_of (fst (position a)) = value_of (fst currCoord)
         \<and> value_of (snd (position a)) = value_of (snd currCoord)
         \<and> iconRotation a =
            (if fst currCoord = MinusZero \<and> fst prevCoord = Number 0
             then (if snd currCoord = MinusZero \<and> snd prevCoord = Number 0
                   then Number (3 * pi / 2) else Number (- pi / 2))
             else Number (pi / 2))))"
proof (intro conjI impI)
  show "segmentArrow [p, p] =
     Inr \<lparr>position = p, angle = Number 0, iconRotation = Number (pi / 2)\<rparr>"
  proof -
    have "num_add (num_neg (atan2z (Number 0) (Number 0))) (Number (pi / 2)) = Number (pi / 2)"
      by (simp add: atan2z_def num_neg_def num_add_def)
    then show ?thesis
      by (simp add: segmentArrow_pair num_half_double num_sub_self) (simp add: atan2z_def)
  qed
next
  assume e: "value_of (fst prevCoord) = value_of (fst currCoord)
        \<and> value_of (snd prevCoord) = value_of (snd currCoord)"
  obtain px py cx cy where p: "prevCoord = (px, py)" "currCoord = (cx, cy)"
    by (cases prevCoord, cases currCoord) auto
  from e show "\<exists>a. segmentArrow [prevCoord, currCoord] = Inr a
         \<and> value_of (fst (position a)) = value_of (fst currCoord)
         \<and> value_of (snd (position a)) = value_of (snd currCoord)
         \<and> iconRotation a =
            (if fst currCoord = MinusZero \<and> fst prevCoord = Number 0
             then (if snd currCoord = MinusZero \<and> snd prevCoord = Number 0
                   then Number (3 * pi / 2) else Number (- pi / 2))
             else Number (pi / 2))"
    unfolding p
    by (cases px; cases py; cases cx; cases cy)
       (simp_all add: segmentArrow_pair value_num_half value_num_add atan2z_def num_sub_def
        num_neg_def num_add_def)
qed

theorem degenerate_segment_witness:
  "value_of (fst (Number 0, Number 5)) = value_of (fst (MinusZero, Number 5))
   \<and> value_of (snd (Number 0, Number 5)) = value_of (snd (MinusZero, Number 5))
   \<and> map_sum id iconRotation (segmentArrow [(Number 0, Number 5), (MinusZero, Number 5)]) =
       Inr (Number (- pi / 2))
   \<and> map_sum id iconRotation (segmentArrow [(MinusZero, Number 5), (MinusZero, Number 5)]) =
       Inr (Number (pi / 2))"
proof -
  have e: "value_of (fst (Number 0, Number 5)) = value_of (fst (MinusZero, Number 5))
      \<and> value_of (snd (Number 0, Number 5)) = value_of (snd (MinusZero, Number 5))"
    by simp
  note w = degenerate_segment [of "(MinusZero, Number 5)" "(Number 0, Number 5)"
      "(MinusZero, Number 5)"]
  from w have 1: "segmentArrow [(MinusZero, Number 5), (MinusZero, Number 5)] =
      Inr \<lparr>position = (MinusZero, Number 5), angle = Number 0,
           iconRotation = Number (pi / 2)\<rparr>"
    by blast
  from w e obtain a where a: "segmentArrow [(Number 0, Number 5), (MinusZero, Number 5)] = Inr a"
    "iconRotation a =
       (if fst (MinusZero, Number 5) = MinusZero \<and> fst (Number 0, Number 5) = Number 0
        then (if snd (MinusZero, Number 5) = MinusZero \<and> snd (Number 0, Number 5) = Number 0
              then Number (3 * pi / 2) else Number (- pi / 2))
        else Number (pi / 2))"
    by blast
  from a have 2: "map_sum id iconRotation
      (segmentArrow [(Number 0, Number 5), (MinusZero, Number 5)]) = Inr (Number (- pi / 2))"
    by simp
  from 1 2 e show ?thesis by simp
qed

section \<open>A playback that runs to completion\<close>

lemma fire_reveal:
  assumes "timers s h = Some t" "idx t < length (locations t)"
    "length (allCoordinates t) = idx t"
    "0 < idx t \<Longrightarrow> allCoordinates t ! (idx t - 1) = project P (locations t ! (idx t - 1))"
  shows "fire P h s =
     s\<lparr>clock := max (clock s) (due t),
       features := features s @ revealFeatures P (locations t) (idx t),
       timeline := timeline s @ [''Location at: '' @ timestamp (locations t ! idx t)],
       trace := trace s @ map (Entry (max (clock s) (due t)) (Timer h))
                  (revealCommands P (locations t) (idx t)),
       timers := (timers s)(h \<mapsto> t\<lparr>allCoordinates := allCoordinates t @ [project P (locations t ! idx t)],
                    idx := idx t + 1, due := max (clock s) (due t) + delay t\<rparr>)\<rparr>"
  using assms
  by (cases "idx t")
     (simp_all add: fire_def intervalCallback_def at_index_def Let_def segmentStep_def
      createSegmentStyle_pair addFeature_def appendChild_def emit_def revealFeatures_def
      revealCommands_def pointOf_def segmentOf_def project_def nth_append)

lemma fire_complete:
  assumes "timers s h = Some t" "length (locations t) \<le> idx t" "animationInterval s = Some h"
  shows "fire P h s =
     (if features s = []
      then s\<lparr>clock := max (clock s) (due t), timers := (timers s)(h := None)\<rparr>
      else s\<lparr>clock := max (clock s) (due t), timers := (timers s)(h := None),
             trace := trace s @ [Entry (max (clock s) (due t)) (Timer h)
                        (FitToBounds (getExtent (features s)) 50 1000)]\<rparr>)"
  using assms
  by (simp add: fire_def intervalCallback_def Let_def clearInterval_def emit_def)

lemma fire_inactive: "timers s h = None \<Longrightarrow> fire P h s = s"
  by (simp add: fire_def)

lemma run_simps:
  "run P [] s = s"
  "run P (e # es) s = run P es (step P e s)"
  "run P (es @ es') s = run P es' (run P es s)"
  by (simp_all add: run_def)

lemma run_snoc: "run P (es @ [e]) s = step P e (run P es s)"
  by (simp add: run_def)

lemma play_prefix:
  "k \<le> length locs \<Longrightarrow>
   run P (replicate k (Tick (next_id s))) (animatePath locs s) = playing P locs k s"
proof (induction k)
  case 0
  show ?case by (simp add: run_simps animatePath_def playing_def Let_def)
next
  case (Suc k)
  then have k: "k < length locs" and IH: "run P (replicate k (Tick (next_id s))) (animatePath locs s) = playing P locs k s"
    by simp_all
  have "run P (replicate (Suc k) (Tick (next_id s))) (animatePath locs s)
      = fire P (next_id s) (playing P locs k s)"
    using IH by (simp only: replicate_Suc replicate_append_same [symmetric] run_snoc step.simps)
  also have "\<dots> = playing P locs (Suc k) s"
    using k
    by (subst fire_reveal [where t = "\<lparr>delay = 2000, due = clock s + 2000 * (k + 1), locations = locs, idx = k,
           allCoordinates = map (project P) (take k locs)\<rparr>"])
       (simp_all add: playing_def take_Suc_conv_app_nth nth_append ac_simps)
  finally show ?case .
qed

lemma play_complete:
  "run P (replicate (length locs + 1) (Tick (next_id s))) (animatePath locs s) = completed P locs s"
proof -
  let ?h = "next_id s"
  let ?p = "playing P locs (length locs) s"
  have "run P (replicate (length locs + 1) (Tick ?h)) (animatePath locs s) = fire P ?h ?p"
    using play_prefix [of "length locs" locs P s]
    by (simp only: replicate_add run_simps, simp add: run_simps)
  also have "\<dots> = completed P locs s"
    by (subst fire_complete [where t = "\<lparr>delay = 2000, due = clock s + 2000 * (length locs + 1),
           locations = locs, idx = length locs, allCoordinates = map (project P) (take (length locs) locs)\<rparr>"])
       (simp_all add: playing_def completed_def Let_def)
  finally show ?thesis .
qed

lemma completed_inactive: "timers (completed P locs s) (next_id s) = None"
  by (simp add: completed_def Let_def playing_def)

lemma run_ticks_inactive:
  "timers s h = None \<Longrightarrow> run P (replicate m (Tick h)) s = s"
  by (induction m) (simp_all add: run_simps fire_inactive)

lemma since_playing:
  "since s (playing P locs k s) =
     concat (map (\<lambda>j. map (Entry (clock s + 2000 * (j + 1)) (Timer (next_id s)))
                  (revealCommands P locs j)) [0..<k])"
  by (simp add: since_def playing_def)

lemma features_playing:
  "features (playing P locs k s) = features s @ concat (map (revealFeatures P locs) [0..<k])"
  by (simp add: playing_def)

lemma revealFeatures_nonempty: "revealFeatures P locs k \<noteq> []"
  by (simp add: revealFeatures_def)

lemma since_completed:
  "since s (completed P locs s) =
     concat (map (\<lambda>j. map (Entry (clock s + 2000 * (j + 1)) (Timer (next_id s)))
                  (revealCommands P locs j)) [0..<length locs]) @
     (if features s = [] \<and> locs = [] then []
      else [Entry (clock s + 2000 * (length locs + 1)) (Timer (next_id s))
             (FitToBounds (getExtent (features s @ concat (map (revealFeatures P locs) [0..<length locs]))) 50 1000)])"
  by (cases locs) (auto simp add: since_def completed_def Let_def playing_def revealFeatures_nonempty)

lemma command_of_Entry: "map command_of (map (Entry tm who) cs) = cs"
  by (induction cs) simp_all

lemma commands_completed:
  "map command_of (since s (completed P locs s)) =
     concat (map (revealCommands P locs) [0..<length locs]) @
     (if features s = [] \<and> locs = [] then []
      else [FitToBounds (getExtent (features s @
              concat (map (revealFeatures P locs) [0..<length locs]))) 50 1000])"
  by (simp add: since_completed map_concat comp_def command_of_Entry)

lemma render_reveal:
  "filter isRender (revealCommands P locs k) = map AddFeature (revealFeatures P locs k)"
  by (simp add: revealCommands_def revealFeatures_def)

lemma points_reveal: "length (filter isPoint (revealCommands P locs k)) = 1"
  by (simp add: revealCommands_def pointOf_def segmentOf_def)

lemma segments_reveal:
  "length (filter isSegment (revealCommands P locs k)) = (if 0 < k then 1 else 0)"
  by (simp add: revealCommands_def pointOf_def segmentOf_def)

lemma points_played:
  "length (filter isPoint (concat (map (revealCommands P locs) [0..<n]))) = n"
  by (induction n) (simp_all add: points_reveal)

lemma segments_played:
  "length (filter isSegment (concat (map (revealCommands P locs) [0..<n]))) = n - 1"
  by (induction n) (auto simp add: segments_reveal)

lemma fold_extend_Extent:
  "fold (\<lambda>c e. extendCoordinate e c) cs (Extent a b c d) =
     Extent (Min (insert a (fst ` set cs))) (Min (insert b (snd ` set cs)))
            (Max (insert c (fst ` set cs))) (Max (insert d (snd ` set cs)))"
proof (induction cs arbitrary: a b c d)
  case Nil
  show ?case by simp
next
  case (Cons x xs)
  have m: "Min (insert (min u v) S) = Min (insert u (insert v S))"
    and M: "Max (insert (max u v) S) = Max (insert u (insert v S))"
    if "finite S" for u v :: real and S
    using that by (cases "S = {}"; simp add: min.assoc max.assoc)+
  show ?case
    by (simp add: Cons.IH m M)
qed

lemma boundingExtent_Cons:
  "boundingExtent (x # xs) =
     Extent (Min (fst ` set (x # xs))) (Min (snd ` set (x # xs)))
            (Max (fst ` set (x # xs))) (Max (snd ` set (x # xs)))"
  by (simp add: boundingExtent_def fold_extend_Extent)

lemma boundingExtent_set:
  assumes "set cs = set ds"
  shows "boundingExtent cs = boundingExtent ds"
proof (cases cs)
  case Nil
  with assms show ?thesis by simp
next
  case (Cons x xs)
  with assms obtain y ys where "ds = y # ys" by (cases ds) auto
  with Cons assms show ?thesis by (simp only: boundingExtent_Cons)
qed

lemma revealed_coordinates:
  "set (concat (map featureCoordinates (concat (map (revealFeatures P locs) [0..<length locs]))))
     = set (map (project P) locs)"
proof -
  have "set (concat (map featureCoordinates (concat (map (revealFeatures P locs) [0..<n]))))
     = project P ` set (take n locs)" if "n \<le> length locs" for n
    using that
  proof (induction n)
    case 0
    show ?case by simp
  next
    case (Suc n)
    then have n: "n < length locs" by simp
    have prev: "locs ! (n - 1) \<in> set (take n locs)" if "0 < n"
    proof -
      from that n have "n - 1 < length (take n locs)" by simp
      then have "take n locs ! (n - 1) \<in> set (take n locs)" by (rule nth_mem)
      with that show ?thesis by simp
    qed
    have step: "set (concat (map featureCoordinates (revealFeatures P locs n)))
        \<subseteq> project P ` set (take (Suc n) locs)"
      using prev n by (auto simp add: revealFeatures_def pointOf_def segmentOf_def take_Suc_conv_app_nth)
    have new: "project P (locs ! n) \<in> set (concat (map featureCoordinates (revealFeatures P locs n)))"
      by (simp add: revealFeatures_def pointOf_def)
    have "set (concat (map featureCoordinates (concat (map (revealFeatures P locs) [0..<Suc n])))) =
       project P ` set (take n locs)
       \<union> set (concat (map featureCoordinates (revealFeatures P locs n)))"
      using Suc by simp
    also have "\<dots> = project P ` set (take (Suc n) locs)"
      using step new n by (auto simp add: take_Suc_conv_app_nth)
    finally show ?case .
  qed
  from this [of "length locs"] show ?thesis by simp
qed

lemma getExtent_revealed:
  "getExtent (concat (map (revealFeatures P locs) [0..<length locs])) =
     boundingExtent (map (project P) locs)"
  unfolding getExtent_def by (rule boundingExtent_set) (rule revealed_coordinates)

lemma since_fire_complete:
  assumes "timers s h = Some t" "length (locations t) \<le> idx t" "animationInterval s = Some h"
  shows "since s (fire P h s) =
     (if features s = [] then []
      else [Entry (max (clock s) (due t)) (Timer h) (FitToBounds (getExtent (features s)) 50 1000)])"
    and "timers (fire P h s) h = None"
  using assms by (simp_all add: fire_complete since_def)

lemma fit_reveal: "filter isFit (revealCommands P locs k) = []"
  by (simp add: revealCommands_def)

lemma fit_played: "filter isFit (concat (map (revealCommands P locs) [0..<n])) = []"
  by (induction n) (simp_all add: fit_reveal)

lemma features_playing_nonempty:
  "locs \<noteq> [] \<Longrightarrow> features (playing P locs (length locs) s) \<noteq> []"
  by (cases locs) (auto simp add: playing_def revealFeatures_nonempty)

lemma since_playing_completed:
  "locs \<noteq> [] \<Longrightarrow>
   since (playing P locs (length locs) s) (completed P locs s) =
     [Entry (clock s + 2000 * (length locs + 1)) (Timer (next_id s))
        (FitToBounds (getExtent (features (playing P locs (length locs) s))) 50 1000)]"
  by (simp add: completed_def Let_def since_def features_playing_nonempty)

text \<open>
  C1. A playback of a non-empty list of \<open>N\<close> locations that runs to completion adds
  exactly \<open>N\<close> point features and \<open>N - 1\<close> segment features, in the order of the list, the
  segment added with location \<open>k\<close> joining location \<open>k - 1\<close> to location \<open>k\<close>; the timer is
  then cleared.
\<close>

theorem playback_commands:
  assumes "locs \<noteq> []"
  shows "let h = next_id s;
             s' = run P (replicate (length locs + 1) (Tick h)) (animatePath locs s);
             cs = map command_of (since s s')
         in timers s' h = None
          \<and> filter isRender cs =
              concat (map (\<lambda>k. AddFeature (pointOf P (locs ! k)) #
                (if 0 < k
                 then [AddFeature (segmentOf (project P (locs ! (k - 1))) (project P (locs ! k)))]
                 else [])) [0..<length locs])
          \<and> length (filter isPoint cs) = length locs
          \<and> length (filter isSegment cs) = length locs - 1"
proof -
  have r: "filter isRender (concat (map (revealCommands P locs) [0..<n])) =
      concat (map (\<lambda>k. AddFeature (pointOf P (locs ! k)) #
                (if 0 < k
                 then [AddFeature (segmentOf (project P (locs ! (k - 1))) (project P (locs ! k)))]
                 else [])) [0..<n])" for n
    by (induction n) (simp_all add: render_reveal revealFeatures_def)
  show ?thesis
    unfolding Let_def play_complete commands_completed
    using assms
    by (simp add: completed_inactive r points_played segments_played)
qed

theorem playback_commands_witness:
  "[\<lparr>latitude = 1, longitude = 2, timestamp = ''t1''\<rparr>,
    \<lparr>latitude = 3, longitude = 5, timestamp = ''t2''\<rparr>] \<noteq> []
   \<and> (let locs = [\<lparr>latitude = 1, longitude = 2, timestamp = ''t1''\<rparr>,
                  \<lparr>latitude = 3, longitude = 5, timestamp = ''t2''\<rparr>];
           s' = run id (replicate 3 (Tick 1)) (animatePath locs initial);
           cs = map command_of (since initial s')
       in timers s' 1 = None
        \<and> filter isRender cs =
            [AddFeature (PointFeature (2, 1) ''t1'' pointStyle),
             AddFeature (PointFeature (5, 3) ''t2'' pointStyle),
             AddFeature (segmentOf (2, 1) (5, 3))]
        \<and> length (filter isPoint cs) = 2
        \<and> length (filter isSegment cs) = 1)"
proof -
  let ?locs = "[\<lparr>latitude = 1, longitude = 2, timestamp = ''t1''\<rparr>,
                \<lparr>latitude = 3, longitude = 5, timestamp = ''t2''\<rparr>]"
  have ne: "?locs \<noteq> []" by simp
  have h: "next_id initial = 1" by (simp add: initial_def)
  have n: "length ?locs + 1 = 3" by simp
  have u: "[0..<length ?locs] = [0, 1]" by (simp add: upt_conv_Cons del: upt_Suc)
  note t = playback_commands [OF ne, of initial id, unfolded Let_def h n u]
  show ?thesis
    unfolding Let_def using ne t by (simp add: pointOf_def project_def)
qed

text \<open>
  Completion of a playback whose handle is the one \<open>animationInterval\<close> holds. The firing
  that finds the list exhausted clears the timer, so that it never fires again, and asks
  the view once to fit the extent of the vector source, with a padding of 50 and a
  duration of 1000, unless the source has no feature. For a playback started on a cleared
  map, with no other event until it ends, that is the bounding box of all revealed
  coordinates, asked for exactly once, by the firing after the last location and by no
  earlier one, and not at all for an empty list.
\<close>

theorem completion_fits_once:
  "(timers s h = Some t \<and> length (locations t) \<le> idx t \<and> animationInterval s = Some h \<longrightarrow>
      timers (fire P h s) h = None
    \<and> (\<forall>m. run P (replicate m (Tick h)) (fire P h s) = fire P h s)
    \<and> map command_of (since s (fire P h s)) =
        (if features s = [] then [] else [FitToBounds (getExtent (features s)) 50 1000]))
   \<and> (features s = [] \<longrightarrow>
       (let h' = next_id s;
            ticks = (\<lambda>k. run P (replicate k (Tick h')) (animatePath locs s))
        in (\<forall>k \<le> length locs. timers (ticks k) h' \<noteq> None
               \<and> filter isFit (map command_of (since s (ticks k))) = [])
         \<and> timers (ticks (length locs + 1)) h' = None
         \<and> (\<forall>k > length locs. ticks k = ticks (length locs + 1))
         \<and> filter isFit (map command_of (since s (ticks (length locs + 1)))) =
             (if locs = [] then []
              else [FitToBounds (boundingExtent (map (project P) locs)) 50 1000])))"
proof (intro conjI impI)
  assume a: "timers s h = Some t \<and> length (locations t) \<le> idx t \<and> animationInterval s = Some h"
  then show off: "timers (fire P h s) h = None"
    by (simp add: since_fire_complete)
  show "\<forall>m. run P (replicate m (Tick h)) (fire P h s) = fire P h s"
    using off by (simp add: run_ticks_inactive)
  show "map command_of (since s (fire P h s)) =
        (if features s = [] then [] else [FitToBounds (getExtent (features s)) 50 1000])"
    using a by (simp add: since_fire_complete)
next
  assume e: "features s = []"
  let ?h = "next_id s"
  let ?ticks = "\<lambda>k. run P (replicate k (Tick ?h)) (animatePath locs s)"
  have pre: "\<forall>k \<le> length locs. timers (?ticks k) ?h \<noteq> None
               \<and> filter isFit (map command_of (since s (?ticks k))) = []"
    by (simp add: play_prefix since_playing map_concat comp_def command_of_Entry fit_played)
       (simp add: playing_def)
  have off: "timers (?ticks (length locs + 1)) ?h = None"
    by (simp only: play_complete completed_inactive)
  have after: "\<forall>k > length locs. ?ticks k = ?ticks (length locs + 1)"
  proof (intro allI impI)
    fix k assume "length locs < k"
    then obtain m where k: "k = (length locs + 1) + m"
      using less_iff_Suc_add by auto
    have "replicate k (Tick ?h) =
        replicate (length locs + 1) (Tick ?h) @ replicate m (Tick ?h)"
      unfolding k by (rule replicate_add)
    then have "?ticks k = run P (replicate m (Tick ?h)) (?ticks (length locs + 1))"
      by (simp only: run_simps)
    also have "\<dots> = ?ticks (length locs + 1)"
      using off by (rule run_ticks_inactive)
    finally show "?ticks k = ?ticks (length locs + 1)" .
  qed
  have fit: "filter isFit (map command_of (since s (?ticks (length locs + 1)))) =
             (if locs = [] then []
              else [FitToBounds (boundingExtent (map (project P) locs)) 50 1000])"
    using e by (simp only: play_complete commands_completed)
      (simp add: fit_played getExtent_revealed)
  show "let h' = next_id s;
            ticks = (\<lambda>k. run P (replicate k (Tick h')) (animatePath locs s))
        in (\<forall>k \<le> length locs. timers (ticks k) h' \<noteq> None
               \<and> filter isFit (map command_of (since s (ticks k))) = [])
         \<and> timers (ticks (length locs + 1)) h' = None
         \<and> (\<forall>k > length locs. ticks k = ticks (length locs + 1))
         \<and> filter isFit (map command_of (since s (ticks (length locs + 1)))) =
             (if locs = [] then []
              else [FitToBounds (boundingExtent (map (project P) locs)) 50 1000])"
    unfolding Let_def using pre off after fit by blast
qed

theorem completion_fits_once_witness:
  "(let locs = [\<lparr>latitude = 1, longitude = 2, timestamp = ''t1''\<rparr>,
                \<lparr>latitude = 3, longitude = 5, timestamp = ''t2''\<rparr>];
        ticks = (\<lambda>k. run id (replicate k (Tick 1)) (animatePath locs initial));
        t = \<lparr>delay = 2000, due = 6000, locations = locs, idx = 2,
             allCoordinates = [(2, 1), (5, 3)]\<rparr>
    in features initial = []
     \<and> timers (ticks 2) 1 = Some t
     \<and> length (locations t) \<le> idx t
     \<and> animationInterval (ticks 2) = Some 1
     \<and> timers (fire id 1 (ticks 2)) 1 = None
     \<and> features (ticks 2) \<noteq> []
     \<and> timers (ticks 3) 1 = None
     \<and> ticks 7 = ticks 3
     \<and> filter isFit (map command_of (since initial (ticks 3))) =
           [FitToBounds (Extent 2 1 5 3) 50 1000])"
proof -
  let ?locs = "[\<lparr>latitude = 1, longitude = 2, timestamp = ''t1''\<rparr>,
                \<lparr>latitude = 3, longitude = 5, timestamp = ''t2''\<rparr>]"
  let ?ticks = "\<lambda>k. run id (replicate k (Tick 1)) (animatePath ?locs initial)"
  let ?t = "\<lparr>delay = 2000, due = 6000, locations = ?locs, idx = 2,
             allCoordinates = [(2, 1), (5, 3)]\<rparr>"
  have h: "next_id initial = 1" and e: "features initial = []"
    by (simp_all add: initial_def)
  have p: "?ticks 2 = playing id ?locs 2 initial"
    using play_prefix [of 2 ?locs id initial] by (simp only: h) simp
  have t: "timers (?ticks 2) 1 = Some ?t" and a: "animationInterval (?ticks 2) = Some 1"
    and f: "features (?ticks 2) \<noteq> []"
    unfolding p
    by (simp_all add: playing_def initial_def project_def revealFeatures_def upt_conv_Cons
        del: upt_Suc)
  have c: "length (locations ?t) \<le> idx ?t" by simp
  note v = completion_fits_once [where s = "?ticks 2" and h = 1 and t = ?t and P = id]
  note w = completion_fits_once [where s = initial and P = id and locs = ?locs,
      unfolded Let_def h]
  from v t c a have 1: "timers (fire id 1 (?ticks 2)) 1 = None" by blast
  from w e have 2: "timers (?ticks (length ?locs + 1)) 1 = None"
    and 3: "\<forall>k > length ?locs. ?ticks k = ?ticks (length ?locs + 1)"
    and 4: "filter isFit (map command_of (since initial (?ticks (length ?locs + 1)))) =
             (if ?locs = [] then []
              else [FitToBounds (boundingExtent (map (project id) ?locs)) 50 1000])"
    by blast+
  have n: "length ?locs + 1 = 3" by simp
  have b: "boundingExtent (map (project id) ?locs) = Extent 2 1 5 3"
    by (simp add: boundingExtent_def project_def)
  from 3 have 5: "?ticks 7 = ?ticks 3" by simp
  show ?thesis
    unfolding Let_def using e t c a f 1 2 [unfolded n] 5 4 [unfolded n b] by simp
qed

text \<open>
  The timing of a playback with no other event until it ends. For a non-empty list of
  \<open>N\<close> locations the timer fires \<open>N + 1\<close> times, 2000 time units apart: firing \<open>k + 1\<close>
  reveals location \<open>k\<close> and nothing else, the timer is still active after \<open>N\<close> firings, and
  only firing \<open>N + 1\<close> fits the view and clears the timer, one period after the last point
  was added.
\<close>

theorem playback_timing:
  assumes "locs \<noteq> []"
  shows "let h = next_id s;
             t0 = clock s;
             n = length locs;
             ticks = (\<lambda>k. run P (replicate k (Tick h)) (animatePath locs s))
         in (\<forall>k \<le> n. timers (ticks k) h =
                Some \<lparr>delay = 2000, due = t0 + 2000 * (k + 1), locations = locs, idx = k,
                      allCoordinates = map (project P) (take k locs)\<rparr>)
          \<and> (\<forall>k < n. since (ticks k) (ticks (k + 1)) =
                map (Entry (t0 + 2000 * (k + 1)) (Timer h)) (revealCommands P locs k))
          \<and> since (ticks n) (ticks (n + 1)) =
                [Entry (t0 + 2000 * (n + 1)) (Timer h)
                   (FitToBounds (getExtent (features (ticks n))) 50 1000)]
          \<and> (\<forall>k > n. timers (ticks k) h = None \<and> ticks k = ticks (n + 1))"
proof -
  let ?h = "next_id s"
  let ?n = "length locs"
  let ?ticks = "\<lambda>k. run P (replicate k (Tick ?h)) (animatePath locs s)"
  have 1: "\<forall>k \<le> ?n. timers (?ticks k) ?h =
                Some \<lparr>delay = 2000, due = clock s + 2000 * (k + 1), locations = locs, idx = k,
                      allCoordinates = map (project P) (take k locs)\<rparr>"
    by (simp add: play_prefix) (simp add: playing_def)
  have 2: "\<forall>k < ?n. since (?ticks k) (?ticks (k + 1)) =
                map (Entry (clock s + 2000 * (k + 1)) (Timer ?h)) (revealCommands P locs k)"
  proof (intro allI impI)
    fix k assume k: "k < ?n"
    then have "?ticks k = playing P locs k s" "?ticks (k + 1) = playing P locs (k + 1) s"
      by (simp_all only: play_prefix less_imp_le_nat Suc_leI Suc_eq_plus1 [symmetric])
    then show "since (?ticks k) (?ticks (k + 1)) =
                map (Entry (clock s + 2000 * (k + 1)) (Timer ?h)) (revealCommands P locs k)"
      by (simp add: playing_def since_def)
  qed
  have 3: "since (?ticks ?n) (?ticks (?n + 1)) =
                [Entry (clock s + 2000 * (?n + 1)) (Timer ?h)
                   (FitToBounds (getExtent (features (?ticks ?n))) 50 1000)]"
    using assms
    by (simp only: play_complete play_prefix [OF order_refl]) (rule since_playing_completed)
  have off: "timers (?ticks (?n + 1)) ?h = None"
    by (simp only: play_complete completed_inactive)
  have 4: "\<forall>k > ?n. timers (?ticks k) ?h = None \<and> ?ticks k = ?ticks (?n + 1)"
  proof (intro allI impI)
    fix k assume "?n < k"
    then obtain m where k: "k = (?n + 1) + m"
      using less_iff_Suc_add by auto
    have "replicate k (Tick ?h) = replicate (?n + 1) (Tick ?h) @ replicate m (Tick ?h)"
      unfolding k by (rule replicate_add)
    then have "?ticks k = run P (replicate m (Tick ?h)) (?ticks (?n + 1))"
      by (simp only: run_simps)
    also have "\<dots> = ?ticks (?n + 1)"
      using off by (rule run_ticks_inactive)
    finally show "timers (?ticks k) ?h = None \<and> ?ticks k = ?ticks (?n + 1)"
      using off by simp
  qed
  show ?thesis
    unfolding Let_def using 1 2 3 4 by blast
qed

theorem playback_timing_witness:
  "(let locs = [\<lparr>latitude = 1, longitude = 2, timestamp = ''t1''\<rparr>,
                \<lparr>latitude = 3, longitude = 5, timestamp = ''t2''\<rparr>];
        ticks = (\<lambda>k. run id (replicate k (Tick 1)) (animatePath locs initial))
    in locs \<noteq> []
     \<and> timers (ticks 2) 1 =
         Some \<lparr>delay = 2000, due = 6000, locations = locs, idx = 2,
               allCoordinates = [(2, 1), (5, 3)]\<rparr>
     \<and> since (ticks 1) (ticks 2) =
         [Entry 4000 (Timer 1) (AddFeature (PointFeature (5, 3) ''t2'' pointStyle)),
          Entry 4000 (Timer 1) (AppendEntry ''Location at: t2''),
          Entry 4000 (Timer 1) (AddFeature (segmentOf (2, 1) (5, 3))),
          Entry 4000 (Timer 1) (CenterOn (5, 3) 1000)]
     \<and> since (ticks 2) (ticks 3) =
         [Entry 6000 (Timer 1) (FitToBounds (getExtent (features (ticks 2))) 50 1000)]
     \<and> timers (ticks 5) 1 = None
     \<and> ticks 5 = ticks 3)"
proof -
  let ?locs = "[\<lparr>latitude = 1, longitude = 2, timestamp = ''t1''\<rparr>,
                \<lparr>latitude = 3, longitude = 5, timestamp = ''t2''\<rparr>]"
  let ?ticks = "\<lambda>k. run id (replicate k (Tick 1)) (animatePath ?locs initial)"
  have ne: "?locs \<noteq> []" by simp
  have h: "next_id initial = 1" and c: "clock initial = 0"
    by (simp_all add: initial_def)
  note w = playback_timing [OF ne, of initial id, unfolded Let_def h c]
  from w have 1: "\<forall>k \<le> length ?locs. timers (?ticks k) 1 =
                Some \<lparr>delay = 2000, due = 0 + 2000 * (k + 1), locations = ?locs, idx = k,
                      allCoordinates = map (project id) (take k ?locs)\<rparr>"
    and 2: "\<forall>k < length ?locs. since (?ticks k) (?ticks (k + 1)) =
                map (Entry (0 + 2000 * (k + 1)) (Timer 1)) (revealCommands id ?locs k)"
    and 3: "since (?ticks (length ?locs)) (?ticks (length ?locs + 1)) =
                [Entry (0 + 2000 * (length ?locs + 1)) (Timer 1)
                   (FitToBounds (getExtent (features (?ticks (length ?locs)))) 50 1000)]"
    and 4: "\<forall>k > length ?locs. timers (?ticks k) 1 = None \<and> ?ticks k = ?ticks (length ?locs + 1)"
    by blast+
  from 1 [rule_format, of 2] have r1: "timers (?ticks 2) 1 =
         Some \<lparr>delay = 2000, due = 6000, locations = ?locs, idx = 2,
               allCoordinates = [(2, 1), (5, 3)]\<rparr>"
    by (simp add: project_def)
  from 2 [rule_format, of 1] have r2: "since (?ticks 1) (?ticks 2) =
         [Entry 4000 (Timer 1) (AddFeature (PointFeature (5, 3) ''t2'' pointStyle)),
          Entry 4000 (Timer 1) (AppendEntry ''Location at: t2''),
          Entry 4000 (Timer 1) (AddFeature (segmentOf (2, 1) (5, 3))),
          Entry 4000 (Timer 1) (CenterOn (5, 3) 1000)]"
    by (simp add: revealCommands_def pointOf_def project_def numeral_2_eq_2)
  from 3 have r3: "since (?ticks 2) (?ticks 3) =
         [Entry 6000 (Timer 1) (FitToBounds (getExtent (features (?ticks 2))) 50 1000)]"
    by (simp add: numeral_2_eq_2 numeral_3_eq_3)
  have n: "length ?locs + 1 = 3" by simp
  have lt: "length ?locs < 5" by simp
  from 4 [rule_format, OF lt] have r4: "timers (?ticks 5) 1 = None" "?ticks 5 = ?ticks 3"
    unfolding n by blast+
  show ?thesis
    unfolding Let_def using ne r1 r2 r3 r4 by simp
qed

section \<open>Reachable states\<close>

lemma fire_revealNext:
  assumes "timers s h = Some t" "idx t < length (locations t)"
    "length (allCoordinates t) = idx t"
  shows "fire P h s = revealNext P h t s"
  using assms
  by (cases "idx t")
     (simp_all add: fire_def intervalCallback_def at_index_def Let_def segmentStep_def
      createSegmentStyle_pair addFeature_def appendChild_def emit_def revealNext_def
      pointOf_def segmentOf_def project_def nth_append)

lemma fire_finish:
  assumes "timers s h = Some t" "length (locations t) \<le> idx t"
  shows "fire P h s = finish h t s"
  using assms
  by (cases "animationInterval s")
     (simp_all add: fire_def intervalCallback_def Let_def clearInterval_def emit_def
      finish_def)

lemma fire_cases [consumes 1, case_names inactive reveal complete]:
  assumes "consistent s"
  obtains "timers s h = None" "fire P h s = s"
  | t where "timers s h = Some t" "idx t < length (locations t)"
      "length (allCoordinates t) = idx t" "fire P h s = revealNext P h t s"
  | t where "timers s h = Some t" "idx t = length (locations t)"
      "length (allCoordinates t) = idx t" "fire P h s = finish h t s"
proof (cases "timers s h")
  case None
  then show ?thesis using that(1) by (simp add: fire_def)
next
  case (Some t)
  with assms have t: "idx t \<le> length (locations t)" "length (allCoordinates t) = idx t"
    by (auto simp add: consistent_def)
  show ?thesis
  proof (cases "idx t < length (locations t)")
    case True
    with Some t show ?thesis using that(2) by (simp add: fire_revealNext)
  next
    case False
    with t have "idx t = length (locations t)" by simp
    with Some t show ?thesis using that(3) by (simp add: fire_finish)
  qed
qed

lemma consistent_initial: "consistent initial"
  by (simp add: consistent_def initial_def)

lemma consistent_fetchAndDisplayPath:
  "consistent s \<Longrightarrow> consistent (fetchAndDisplayPath sel s)"
  by (auto simp add: consistent_def fetchAndDisplayPath_def Let_def emit_def clearInterval_def
      split: option.splits if_splits)

lemma consistent_fetchResolved:
  "consistent s \<Longrightarrow> consistent (fetchResolved r s)"
  by (auto simp add: consistent_def fetchResolved_def Let_def emit_def animatePath_def
      split: outcome.splits if_splits) (metis less_SucI)

lemma consistent_fire:
  assumes "consistent s"
  shows "consistent (fire P h s)"
  using assms
proof (cases rule: fire_cases [where h = h and P = P])
  case inactive
  with assms show ?thesis by simp
next
  case (reveal t)
  with assms show ?thesis
    by (auto simp add: consistent_def revealNext_def Let_def)
next
  case (complete t)
  with assms show ?thesis
    by (auto simp add: consistent_def finish_def Let_def split: option.splits if_splits)
qed

lemma consistent_step: "consistent s \<Longrightarrow> consistent (step P e s)"
  by (cases e) (simp_all add: consistent_fetchAndDisplayPath consistent_fetchResolved
      consistent_fire)

lemma consistent_run: "consistent s \<Longrightarrow> consistent (run P es s)"
  by (induction es arbitrary: s) (simp_all add: run_simps consistent_step)

lemma consistent_reachable: "consistent (run P es initial)"
  by (rule consistent_run) (rule consistent_initial)

lemma since_append: "trace s' = trace s @ xs \<Longrightarrow> since s s' = xs"
  by (simp add: since_def)

lemma trace_fetchAndDisplayPath:
  "\<exists>xs. trace (fetchAndDisplayPath sel s) = trace s @ xs
      \<and> (\<forall>x \<in> set xs. origin_of x = Handler)"
  by (simp add: fetchAndDisplayPath_def Let_def emit_def clearInterval_def
      split: option.splits)

lemma trace_fetchResolved:
  "\<exists>xs. trace (fetchResolved r s) = trace s @ xs \<and> (\<forall>x \<in> set xs. origin_of x = Handler)"
  by (simp add: fetchResolved_def Let_def emit_def animatePath_def split: outcome.splits)

lemma trace_fire:
  assumes "consistent s"
  shows "\<exists>xs. trace (fire P h s) = trace s @ xs \<and> (\<forall>x \<in> set xs. origin_of x = Timer h)"
  using assms
proof (cases rule: fire_cases [where h = h and P = P])
  case inactive
  then show ?thesis by simp
next
  case (reveal t)
  then show ?thesis by (simp add: revealNext_def Let_def)
next
  case (complete t)
  then show ?thesis by (simp add: finish_def Let_def)
qed

lemma trace_step:
  assumes "consistent s"
  shows "\<exists>xs. trace (step P e s) = trace s @ xs \<and> (\<forall>x \<in> set xs. origin_of x = event_origin e)"
  using assms
  by (cases e) (simp_all add: trace_fetchAndDisplayPath trace_fetchResolved trace_fire)

lemma trace_run:
  assumes "consistent s"
  shows "\<exists>xs. trace (run P es s) = trace s @ xs"
  using assms
proof (induction es arbitrary: s)
  case Nil
  show ?case by (simp add: run_simps)
next
  case (Cons e es)
  from Cons.prems obtain xs where xs: "trace (step P e s) = trace s @ xs"
    using trace_step by blast
  from Cons.prems have "consistent (step P e s)" by (rule consistent_step)
  then obtain ys where "trace (run P es (step P e s)) = trace (step P e s) @ ys"
    using Cons.IH by blast
  with xs show ?case by (simp add: run_simps)
qed

lemma cleared_step:
  assumes "consistent s" "timers s h = None" "h < next_id s"
  shows "timers (step P e s) h = None" and "h < next_id (step P e s)"
proof -
  have "timers (step P e s) h = None \<and> h < next_id (step P e s)"
  proof (cases e)
    case (Click sel)
    with assms show ?thesis
      by (simp add: fetchAndDisplayPath_def Let_def emit_def clearInterval_def
          split: option.splits)
  next
    case (Resolve r)
    with assms show ?thesis
      by (simp add: fetchResolved_def Let_def emit_def animatePath_def split: outcome.splits)
  next
    case (Tick h')
    from assms(1) show ?thesis
    proof (cases rule: fire_cases [where h = h' and P = P])
      case inactive
      with Tick assms show ?thesis by simp
    next
      case (reveal t)
      with Tick assms show ?thesis by (auto simp add: revealNext_def Let_def)
    next
      case (complete t)
      with Tick assms show ?thesis
        by (auto simp add: finish_def Let_def split: option.splits)
    qed
  qed
  then show "timers (step P e s) h = None" and "h < next_id (step P e s)" by simp_all
qed

lemma silent_step:
  assumes "consistent s" "timers s h = None"
  shows "filter (\<lambda>x. origin_of x = Timer h) (trace (step P e s)) =
         filter (\<lambda>x. origin_of x = Timer h) (trace s)"
proof (cases "e = Tick h")
  case True
  with assms show ?thesis by (simp add: fire_inactive)
next
  case False
  then have ne: "event_origin e \<noteq> Timer h" by (cases e) simp_all
  from assms(1) obtain xs where
    xs: "trace (step P e s) = trace s @ xs" "\<forall>x \<in> set xs. origin_of x = event_origin e"
    using trace_step by blast
  with ne have "filter (\<lambda>x. origin_of x = Timer h) xs = []"
    by (simp add: filter_empty_conv)
  with xs show ?thesis by simp
qed

lemma silent_run:
  assumes "consistent s" "timers s h = None" "h < next_id s"
  shows "timers (run P es s) h = None
       \<and> filter (\<lambda>x. origin_of x = Timer h) (trace (run P es s)) =
         filter (\<lambda>x. origin_of x = Timer h) (trace s)"
  using assms
proof (induction es arbitrary: s)
  case Nil
  then show ?case by (simp add: run_simps)
next
  case (Cons e es)
  have "consistent (step P e s)" "timers (step P e s) h = None" "h < next_id (step P e s)"
    using Cons.prems by (simp_all add: consistent_step cleared_step)
  from Cons.IH [OF this] show ?case
    using Cons.prems by (simp add: run_simps silent_step)
qed

lemma closure_step:
  assumes "consistent s" "timers s h = Some t" "timers (step P e s) h = Some t'"
  shows "if e = Tick h \<and> idx t < length (locations t)
         then locations t' = locations t \<and> idx t' = idx t + 1
         else locations t' = locations t \<and> idx t' = idx t"
proof (cases e)
  case (Click sel)
  with assms show ?thesis
    by (auto simp add: fetchAndDisplayPath_def Let_def emit_def clearInterval_def
        split: option.splits if_splits)
next
  case (Resolve r)
  from assms(1,2) have "h \<noteq> next_id s" by (auto simp add: consistent_def)
  with Resolve assms show ?thesis
    by (auto simp add: fetchResolved_def Let_def emit_def animatePath_def
        split: outcome.splits if_splits)
next
  case (Tick h')
  from assms(1) show ?thesis
  proof (cases rule: fire_cases [where h = h' and P = P])
    case inactive
    with Tick assms show ?thesis by auto
  next
    case (reveal u)
    with Tick assms show ?thesis
      by (auto simp add: revealNext_def Let_def split: if_splits)
  next
    case (complete u)
    with Tick assms show ?thesis
      by (auto simp add: finish_def Let_def split: option.splits if_splits)
  qed
qed

lemma advance_step:
  assumes "consistent s" "timers s h = Some t" "idx t < length (locations t)"
  shows "map_option idx (timers (step P (Tick h) s) h) = Some (idx t + 1)"
proof -
  from assms have "length (allCoordinates t) = idx t" by (auto simp add: consistent_def)
  with assms show ?thesis
    by (simp add: fire_revealNext revealNext_def Let_def)
qed

lemmas model_defs =
  run_def fetchAndDisplayPath_def fetchResolved_def animatePath_def fire_def
  intervalCallback_def segmentStep_def createSegmentStyle_pair at_index_def emit_def
  addFeature_def appendChild_def clearInterval_def initial_def Let_def

lemma example_run:
  "run id [Click exampleSelection, Resolve (Body [fixA, fixB]), Tick 1] initial =
   \<lparr>animationInterval = Some 1,
    features = [PointFeature (2, 1) ''t1'' pointStyle],
    timeline = [''Location at: t1''],
    timers = (\<lambda>h. None)(1 \<mapsto>
       \<lparr>delay = 2000, due = 4000, locations = [fixA, fixB], idx = 1,
        allCoordinates = [(2, 1)]\<rparr>),
    next_id = 2, pending = 0, clock = 2000,
    trace = [Entry 0 Handler ClearAll, Entry 0 Handler Clear,
             Entry 2000 (Timer 1) (AddFeature (PointFeature (2, 1) ''t1'' pointStyle)),
             Entry 2000 (Timer 1) (AppendEntry ''Location at: t1''),
             Entry 2000 (Timer 1) (CenterOn (2, 1) 1000)]\<rparr>"
  by (simp add: model_defs)

text \<open>
  C6. In every reachable state the index \<open>i\<close> of an active callback is at most the number
  of its locations, and equals the number of coordinates collected. No event decreases
  it or changes the list; it grows by exactly one, and only by a firing of its own timer
  that finds it below the length; no callback ever throws, so no element is read at or
  beyond the length; and after as many firings as there are locations it is the length.
\<close>

theorem revealed_count_invariant:
  assumes "s = run P es initial" and "timers s h = Some t"
  shows "idx t \<le> length (locations t)
       \<and> length (allCoordinates t) = idx t
       \<and> (\<forall>e t'. timers (step P e s) h = Some t' \<longrightarrow>
             locations t' = locations t \<and> idx t \<le> idx t' \<and> idx t' \<le> idx t + 1
           \<and> (idx t' = idx t + 1 \<longleftrightarrow> e = Tick h \<and> idx t < length (locations t)))
       \<and> (idx t < length (locations t) \<longrightarrow>
             map_option idx (timers (step P (Tick h) s) h) = Some (idx t + 1))
       \<and> (\<forall>e. filter (isUncaught \<circ> command_of) (trace (step P e s)) = [])
       \<and> (\<forall>locs. map_option idx
             (timers (run P (replicate (length locs) (Tick (next_id s))) (animatePath locs s))
                (next_id s)) = Some (length locs))"
proof -
  have c: "consistent s" unfolding assms(1) by (rule consistent_reachable)
  with assms(2) have 1: "idx t \<le> length (locations t)" "length (allCoordinates t) = idx t"
    by (auto simp add: consistent_def)
  have 2: "\<forall>e t'. timers (step P e s) h = Some t' \<longrightarrow>
             locations t' = locations t \<and> idx t \<le> idx t' \<and> idx t' \<le> idx t + 1
           \<and> (idx t' = idx t + 1 \<longleftrightarrow> e = Tick h \<and> idx t < length (locations t))"
  proof (intro allI impI)
    fix e t' assume "timers (step P e s) h = Some t'"
    from closure_step [OF c assms(2) this]
    show "locations t' = locations t \<and> idx t \<le> idx t' \<and> idx t' \<le> idx t + 1
           \<and> (idx t' = idx t + 1 \<longleftrightarrow> e = Tick h \<and> idx t < length (locations t))"
      by (auto split: if_splits)
  qed
  have 3: "idx t < length (locations t) \<longrightarrow>
             map_option idx (timers (step P (Tick h) s) h) = Some (idx t + 1)"
    using advance_step [OF c assms(2)] by simp
  have 4: "\<forall>e. filter (isUncaught \<circ> command_of) (trace (step P e s)) = []"
    using consistent_step [OF c] by (simp add: consistent_def)
  have 5: "\<forall>locs. map_option idx
             (timers (run P (replicate (length locs) (Tick (next_id s))) (animatePath locs s))
                (next_id s)) = Some (length locs)"
    by (simp add: play_prefix) (simp add: playing_def)
  from 1 2 3 4 5 show ?thesis by blast
qed

theorem revealed_count_invariant_witness:
  "let s = run id [Click exampleSelection, Resolve (Body [fixA, fixB]), Tick 1] initial;
       t = \<lparr>delay = 2000, due = 4000, locations = [fixA, fixB], idx = 1,
            allCoordinates = [(2, 1)]\<rparr>
   in timers s 1 = Some t
    \<and> idx t \<le> length (locations t)
    \<and> length (allCoordinates t) = idx t
    \<and> idx t < length (locations t)
    \<and> map_option idx (timers (step id (Tick 1) s) 1) = Some 2
    \<and> filter (isUncaught \<circ> command_of) (trace (step id (Tick 1) s)) = []
    \<and> map_option idx
         (timers (run id (replicate 3 (Tick 2)) (animatePath [fixA, fixB, fixC] s)) 2) = Some 3"
proof -
  let ?s = "run id [Click exampleSelection, Resolve (Body [fixA, fixB]), Tick 1] initial"
  let ?t = "\<lparr>delay = 2000, due = 4000, locations = [fixA, fixB], idx = 1,
            allCoordinates = [(2, 1)]\<rparr>"
  have t: "timers ?s 1 = Some ?t" and n: "next_id ?s = 2"
    unfolding example_run by simp_all
  have l: "idx ?t < length (locations ?t)" by simp
  note w = revealed_count_invariant [OF refl t]
  from w have 1: "idx ?t \<le> length (locations ?t)" "length (allCoordinates ?t) = idx ?t"
    and 3: "idx ?t < length (locations ?t) \<longrightarrow>
             map_option idx (timers (step id (Tick 1) ?s) 1) = Some (idx ?t + 1)"
    and 4: "\<forall>e. filter (isUncaught \<circ> command_of) (trace (step id e ?s)) = []"
    and 5: "\<forall>locs. map_option idx
             (timers (run id (replicate (length locs) (Tick (next_id ?s))) (animatePath locs ?s))
                (next_id ?s)) = Some (length locs)"
    by blast+
  have i: "idx ?t + 1 = 2" by simp
  from 3 l have r3: "map_option idx (timers (step id (Tick 1) ?s) 1) = Some 2"
    unfolding i by blast
  from 4 have r4: "filter (isUncaught \<circ> command_of) (trace (step id (Tick 1) ?s)) = []"
    by blast
  have k: "length [fixA, fixB, fixC] = 3" by simp
  from 5 [rule_format, of "[fixA, fixB, fixC]"] have r5: "map_option idx
         (timers (run id (replicate 3 (Tick 2)) (animatePath [fixA, fixB, fixC] ?s)) 2) = Some 3"
    unfolding n k .
  show ?thesis
    unfolding Let_def using t 1 l r3 r4 r5 by blast
qed

text \<open>
  C3. When \<open>fetchAndDisplayPath\<close> has cleared the interval held in \<open>animationInterval\<close>,
  that timer is inactive whatever events follow, a firing of it does nothing, and no
  later command comes from its callback.
\<close>

theorem cancelled_session_silent:
  assumes "s = run P es initial" and "animationInterval s = Some h"
  shows "let s' = run P es' (fetchAndDisplayPath sel s)
         in timers s' h = None
          \<and> step P (Tick h) s' = s'
          \<and> filter (\<lambda>x. origin_of x = Timer h) (since s s') = []"
proof -
  let ?s1 = "fetchAndDisplayPath sel s"
  let ?s' = "run P es' ?s1"
  let ?f = "filter (\<lambda>x. origin_of x = Timer h)"
  have c: "consistent s" unfolding assms(1) by (rule consistent_reachable)
  with assms(2) have h: "0 < h" "h < next_id s" by (auto simp add: consistent_def)
  have c1: "consistent ?s1" using c by (rule consistent_fetchAndDisplayPath)
  have off: "timers ?s1 h = None" and n: "h < next_id ?s1"
    using assms(2) h
    by (simp_all add: fetchAndDisplayPath_def Let_def emit_def clearInterval_def)
  obtain xs where xs: "trace ?s1 = trace s @ xs" "\<forall>x \<in> set xs. origin_of x = Handler"
    using trace_fetchAndDisplayPath by blast
  obtain ys where ys: "trace ?s' = trace ?s1 @ ys"
    using trace_run [OF c1] by blast
  from silent_run [OF c1 off n, of P es']
  have t: "timers ?s' h = None" and f: "?f (trace ?s') = ?f (trace ?s1)"
    by simp_all
  from f ys have "?f ys = []" by simp
  moreover from xs(2) have "?f xs = []" by (simp add: filter_empty_conv)
  moreover from xs ys have "since s ?s' = xs @ ys" by (simp add: since_def)
  ultimately have "?f (since s ?s') = []" by simp
  with t show ?thesis by (simp add: Let_def fire_inactive)
qed

theorem cancelled_session_silent_witness:
  "let s = run id [Click exampleSelection, Resolve (Body [fixA, fixB]), Tick 1] initial;
       s' = run id [Tick 1, Tick 1, Tick 1] (fetchAndDisplayPath exampleSelection s)
   in animationInterval s = Some 1
    \<and> timers s 1 \<noteq> None
    \<and> timers s' 1 = None
    \<and> step id (Tick 1) s' = s'
    \<and> filter (\<lambda>x. origin_of x = Timer 1) (since s s') = []"
proof -
  let ?s = "run id [Click exampleSelection, Resolve (Body [fixA, fixB]), Tick 1] initial"
  have a: "animationInterval ?s = Some 1" and b: "timers ?s 1 \<noteq> None"
    unfolding example_run by simp_all
  note w = cancelled_session_silent [OF refl a, of "[Tick 1, Tick 1, Tick 1]" exampleSelection,
      unfolded Let_def]
  show ?thesis
    unfolding Let_def using a b w by blast
qed



section \<open>Two requests\<close>

text \<open>
  C2. Two clicks while the first request is still pending: each click clears the map,
  but neither finds an interval to clear, and each continuation then starts a timer of
  its own. Both timers are active afterwards, no reset lies between the two playbacks,
  and the points of the first list are added in between those of the second.
\<close>

theorem overlapping_requests_intermix:
  "let s = run id [Click exampleSelection, Click exampleSelection,
                   Resolve (Body [fixA, fixB]), Resolve (Body [fixC]),
                   Tick 1, Tick 2, Tick 1] initial
   in animationInterval s = Some 2
    \<and> timers s 1 \<noteq> None
    \<and> timers s 2 \<noteq> None
    \<and> map (\<lambda>x. (origin_of x, command_of x))
         (filter (\<lambda>x. command_of x \<in> {ClearAll, Clear} \<or> isRender (command_of x)) (trace s)) =
        [(Handler, ClearAll), (Handler, Clear), (Handler, ClearAll), (Handler, Clear),
         (Timer 1, AddFeature (PointFeature (2, 1) ''t1'' pointStyle)),
         (Timer 2, AddFeature (PointFeature (7, 8) ''t3'' pointStyle)),
         (Timer 1, AddFeature (PointFeature (5, 3) ''t2'' pointStyle)),
         (Timer 1, AddFeature (segmentOf (2, 1) (5, 3)))]"
  by (simp add: model_defs segmentOf_def)

text \<open>
  C8. A playback that finds its list exhausted is to clear its own timer, so that it
  fires no more, and to fit the view once. After two overlapping requests the first
  playback does neither: \<open>animationInterval\<close> holds the handle of the second, so the first
  clears that one, which never shows a location, stays active itself, and fits the view
  again on every later firing.
\<close>

theorem completion_clears_other_timer:
  "let s = run id [Click exampleSelection, Click exampleSelection,
                   Resolve (Body [fixA]), Resolve (Body [fixB, fixC]),
                   Tick 1, Tick 1, Tick 1, Tick 1] initial
   in animationInterval s = Some 2
    \<and> timers s 1 =
        Some \<lparr>delay = 2000, due = 10000, locations = [fixA], idx = 1,
              allCoordinates = [(2, 1)]\<rparr>
    \<and> timers s 2 = None
    \<and> filter (\<lambda>x. origin_of x = Timer 2) (trace s) = []
    \<and> map (\<lambda>x. (time_of x, origin_of x, command_of x))
          (filter (isFit \<circ> command_of) (trace s)) =
        [(4000, Timer 1, FitToBounds (Extent 2 1 2 1) 50 1000),
         (6000, Timer 1, FitToBounds (Extent 2 1 2 1) 50 1000),
         (8000, Timer 1, FitToBounds (Extent 2 1 2 1) 50 1000)]"
  by (simp add: model_defs getExtent_def boundingExtent_def)

text \<open>
  C10. A playback of \<open>N\<close> locations is to fire \<open>N + 1\<close> times. After two overlapping requests
  the first one, with two locations, adds its points at 2000 and 4000, finds the list
  exhausted at 6000, and, since it cannot clear its own timer, again at 8000 and at
  10000; it is due once more at 12000. Nothing cancelled it. The second playback, whose
  handle \<open>animationInterval\<close> holds, ends after its two firings.
\<close>

theorem leaked_session_keeps_firing:
  "let s = run id [Click exampleSelection, Click exampleSelection,
                   Resolve (Body [fixA, fixB]), Resolve (Body [fixC]),
                   Tick 1, Tick 2, Tick 1, Tick 2, Tick 1, Tick 1, Tick 1] initial
   in map time_of (filter (\<lambda>x. origin_of x = Timer 1 \<and> isPoint (command_of x)) (trace s)) =
        [2000, 4000]
    \<and> map time_of (filter (\<lambda>x. origin_of x = Timer 1 \<and> isFit (command_of x)) (trace s)) =
        [6000, 8000, 10000]
    \<and> timers s 1 =
        Some \<lparr>delay = 2000, due = 12000, locations = [fixA, fixB], idx = 2,
              allCoordinates = [(2, 1), (5, 3)]\<rparr>
    \<and> timers s 2 = None
    \<and> map time_of (filter (\<lambda>x. origin_of x = Timer 2) (trace s)) =
        [2000, 2000, 2000, 4000]"
  by (simp add: model_defs segmentOf_def)

text \<open>
  Without overlapping requests this cannot happen. As long as the button is not clicked
  while a request is pending, an active timer is the one \<open>animationInterval\<close> holds, and a
  firing that finds the list exhausted clears its own timer and fits the view once.
\<close>

lemma alone_initial: "alone initial"
  by (simp add: alone_def initial_def)

lemma alone_click:
  assumes "consistent s" "alone s" "pending s = 0"
  shows "alone (fetchAndDisplayPath sel s)"
proof -
  have "timers (fetchAndDisplayPath sel s) h = None" for h
  proof (cases "timers s h")
    case None
    then show ?thesis
      by (simp add: fetchAndDisplayPath_def Let_def emit_def clearInterval_def
          split: option.splits)
  next
    case (Some t)
    with assms(2) have "animationInterval s = Some h" by (simp add: alone_def)
    moreover from assms(1) Some have "0 < h" by (auto simp add: consistent_def)
    ultimately show ?thesis
      by (simp add: fetchAndDisplayPath_def Let_def emit_def clearInterval_def)
  qed
  moreover have "pending (fetchAndDisplayPath sel s) \<le> 1"
    using assms(3)
    by (simp add: fetchAndDisplayPath_def Let_def emit_def clearInterval_def
        split: option.splits)
  ultimately show ?thesis by (simp add: alone_def)
qed

lemma alone_resolve:
  assumes "alone s"
  shows "alone (fetchResolved r s)"
proof (cases "pending s = 0")
  case True
  with assms show ?thesis by (simp add: fetchResolved_def)
next
  case False
  with assms have p: "pending s = 1" and idle: "\<forall>h. timers s h = None"
    by (auto simp add: alone_def)
  then show ?thesis
    by (auto simp add: alone_def fetchResolved_def Let_def emit_def animatePath_def
        split: outcome.splits)
qed

lemma alone_fire:
  assumes "consistent s" "alone s"
  shows "alone (fire P h s)"
  using assms(1)
proof (cases rule: fire_cases [where h = h and P = P])
  case inactive
  with assms show ?thesis by simp
next
  case (reveal t)
  with assms show ?thesis
    by (auto simp add: alone_def revealNext_def Let_def)
next
  case (complete t)
  with assms show ?thesis
    by (auto simp add: alone_def finish_def Let_def split: option.splits if_splits)
qed

lemma alone_run:
  assumes "consistent s" "alone s" "patient P es s"
  shows "alone (run P es s)"
  using assms
proof (induction es arbitrary: s)
  case Nil
  then show ?case by (simp add: run_simps)
next
  case (Cons e es)
  have "alone (step P e s) \<and> patient P es (step P e s)"
    using Cons.prems
    by (cases e) (simp_all add: alone_click alone_resolve alone_fire)
  with Cons.IH [OF consistent_step [OF Cons.prems(1)]] show ?case
    by (simp add: run_simps)
qed

lemma patient_completion:
  assumes "patient P es initial" and "s = run P es initial"
    and "timers s h = Some t" and "length (locations t) \<le> idx t"
  shows "timers (fire P h s) h = None
       \<and> (\<forall>m. run P (replicate m (Tick h)) (fire P h s) = fire P h s)
       \<and> map command_of (since s (fire P h s)) =
           (if features s = [] then [] else [FitToBounds (getExtent (features s)) 50 1000])"
proof -
  have "alone s"
    unfolding assms(2) using consistent_initial alone_initial assms(1) by (rule alone_run)
  with assms(3) have a: "animationInterval s = Some h" by (simp add: alone_def)
  have off: "timers (fire P h s) h = None"
    using assms(3,4) a by (rule since_fire_complete)
  then show ?thesis
    using assms(3,4) a by (simp add: since_fire_complete run_ticks_inactive)
qed

lemma run_ticks_idle:
  "timers s = (\<lambda>h. None) \<Longrightarrow> run P (map Tick hs) s = s"
  by (induction hs) (simp_all add: run_simps fire_inactive)

text \<open>
  When the second click comes while the first playback is running and no other request
  is pending, the first timer is cleared at once, one reset is issued, and all later
  commands are those of the second list.
\<close>

lemma sequential_requests_supersede:
  assumes "animationInterval s = Some h" and "0 < h"
    and "\<forall>h'. h' \<noteq> h \<longrightarrow> timers s h' = None" and "pending s = 0"
    and "groupId sel \<noteq> []" and "startDate sel \<noteq> []" and "endDate sel \<noteq> []"
    and "locs \<noteq> []"
  shows "let s1 = fetchAndDisplayPath sel s;
             s2 = run P (map Tick hs) s1;
             s3 = fetchResolved (Body locs) s2;
             s' = run P (replicate (length locs + 1) (Tick (next_id s))) s3
         in timers s1 = (\<lambda>h. None) \<and> s2 = s1
          \<and> dom (timers s3) = {next_id s}
          \<and> timers s' = (\<lambda>h. None)
          \<and> map (\<lambda>x. (origin_of x, command_of x)) (since s s') =
              [(Handler, ClearAll), (Handler, Clear)] @
              map (Pair (Timer (next_id s)))
                (concat (map (revealCommands P locs) [0..<length locs]) @
                 [FitToBounds (boundingExtent (map (project P) locs)) 50 1000])"
proof -
  let ?s1 = "fetchAndDisplayPath sel s"
  let ?r = "s\<lparr>timers := (\<lambda>h. None), features := [], timeline := [],
               trace := trace s @ [Entry (clock s) Handler ClearAll, Entry (clock s) Handler Clear],
               pending := 0\<rparr>"
  have idle: "(timers s)(h := None) = (\<lambda>h. None)"
    using assms(3) by (auto simp add: fun_eq_iff)
  have s1: "?s1 = ?r\<lparr>pending := 1\<rparr>"
    using assms(1,2,4,5,6,7) by (simp add: fetchAndDisplayPath_def Let_def emit_def clearInterval_def idle)
  then have t1: "timers ?s1 = (\<lambda>h. None)" by simp
  then have s2: "run P (map Tick hs) ?s1 = ?s1" by (rule run_ticks_idle)
  have s3: "fetchResolved (Body locs) ?s1 = animatePath locs ?r"
    using assms(8) by (simp add: s1 fetchResolved_def Let_def)
  have n: "next_id ?r = next_id s" by simp
  have d: "dom (timers (animatePath locs ?r)) = {next_id s}"
    by (simp add: animatePath_def Let_def)
  have fin: "run P (replicate (length locs + 1) (Tick (next_id s))) (animatePath locs ?r) =
      completed P locs ?r"
    using play_complete [of P locs ?r] by (simp only: n)
  have off: "timers (completed P locs ?r) = (\<lambda>h. None)"
    by (simp add: completed_def Let_def playing_def)
  have tr: "trace (completed P locs ?r) = trace ?r @ since ?r (completed P locs ?r)"
    by (simp add: completed_def Let_def playing_def since_def)
  have "since s (completed P locs ?r) =
      [Entry (clock s) Handler ClearAll, Entry (clock s) Handler Clear] @
      since ?r (completed P locs ?r)"
    by (subst since_def, subst tr) simp
  then have "map (\<lambda>x. (origin_of x, command_of x)) (since s (completed P locs ?r)) =
      [(Handler, ClearAll), (Handler, Clear)] @
      map (Pair (Timer (next_id s)))
        (concat (map (revealCommands P locs) [0..<length locs]) @
         [FitToBounds (boundingExtent (map (project P) locs)) 50 1000])"
    using assms(8)
    by (simp add: since_completed getExtent_revealed map_concat comp_def)
  with t1 s2 s3 d fin off show ?thesis
    by (simp add: Let_def)
qed

end
